theory Spec2Isabelle
  imports Complex_Main "HOL-Library.Char_ord" "HOL-Library.List_Lexorder"
begin

section \<open>Shared helpers: JavaScript built-ins used by the charts\<close>

text \<open>
  JavaScript numbers are modelled as exact reals: rounding, \<open>NaN\<close> and the infinities
  of IEEE doubles are outside the model. Where the source tests \<open>isNaN\<close> on a field
  of a record, the field is a \<open>real option\<close> and \<open>None\<close> stands for \<open>NaN\<close>.
\<close>

text \<open>\<^verbatim>\<open>Array.from(new Set(xs))\<close> and \<^verbatim>\<open>[...new Set(xs)]\<close>: a Set keeps its elements in
  insertion order and ignores a value it already holds.\<close>

definition set_add :: "'a list \<Rightarrow> 'a \<Rightarrow> 'a list" where
  "set_add acc x = (if x \<in> set acc then acc else acc @ [x])"

definition uniq :: "'a list \<Rightarrow> 'a list" where
  "uniq xs = foldl set_add [] xs"

text \<open>The distinct values of a list in first-seen order, said directly: the elements at
  the positions where a value occurs for the first time.\<close>

definition first_seen :: "'a list \<Rightarrow> 'a list" where
  "first_seen xs = map (\<lambda>i. xs ! i) (filter (\<lambda>i. xs ! i \<notin> set (take i xs)) [0..<length xs])"

text \<open>\<^verbatim>\<open>Object.fromEntries(kvs)\<close>: the own properties of the new object; a later entry
  with the same key overwrites an earlier one.\<close>

definition fromEntries :: "('k \<times> 'v) list \<Rightarrow> ('k \<rightharpoonup> 'v)" where
  "fromEntries kvs = foldl (\<lambda>obj (k, v). obj(k \<mapsto> v)) Map.empty kvs"

text \<open>\<^verbatim>\<open>Array.prototype.sort(cmp)\<close>: the sort is stable (ECMAScript 2019), so with a
  consistent comparator it returns what a stable insertion sort returns: \<open>x\<close> goes before
  the first \<open>y\<close> with \<open>cmp x y \<le> 0\<close>.\<close>

fun insert_by :: "('a \<Rightarrow> 'a \<Rightarrow> int) \<Rightarrow> 'a \<Rightarrow> 'a list \<Rightarrow> 'a list" where
  "insert_by cmp x [] = [x]"
| "insert_by cmp x (y # ys) = (if cmp x y \<le> 0 then x # y # ys else y # insert_by cmp x ys)"

definition array_sort :: "('a \<Rightarrow> 'a \<Rightarrow> int) \<Rightarrow> 'a list \<Rightarrow> 'a list" where
  "array_sort cmp xs = foldr (insert_by cmp) xs []"

text \<open>\<^verbatim>\<open>d3.group(values, key)\<close> (d3-array): the values are pushed, in order, to the group
  of their key in a Map, which keeps its keys in insertion order:
  \<^verbatim>\<open>const group = groups.get(key); if (group) group.push(value); else groups.set(key, [value]);\<close>\<close>

definition group_push :: "('a \<Rightarrow> 'k) \<Rightarrow> ('k \<times> 'a list) list \<Rightarrow> 'a \<Rightarrow> ('k \<times> 'a list) list" where
  "group_push keyof groups v =
     (if keyof v \<in> fst ` set groups
      then map (\<lambda>(k, g). if k = keyof v then (k, g @ [v]) else (k, g)) groups
      else groups @ [(keyof v, [v])])"

definition d3_group :: "'a list \<Rightarrow> ('a \<Rightarrow> 'k) \<Rightarrow> ('k \<times> 'a list) list" where
  "d3_group values keyof = foldl (group_push keyof) [] values"

section \<open>Ridgeline plot: kernel density estimation\<close>

text \<open>\<^verbatim>\<open>d3.mean(values, valueof)\<close> (d3-array): counts and sums the values and returns
  \<open>sum / count\<close>, or \<open>undefined\<close> (here \<open>None\<close>) when nothing was counted. Its test that skips
  \<open>null\<close> and \<open>NaN\<close> values is always passed by a real.\<close>

definition d3_mean :: "'a list \<Rightarrow> ('a \<Rightarrow> real) \<Rightarrow> real option" where
  "d3_mean values valueof =
     (let (count, sum) =
            foldl (\<lambda>(count, sum) v. (count + 1, sum + valueof v)) (0::nat, 0::real) values
      in if count \<noteq> 0 then Some (sum / real count) else None)"

text \<open>\<^verbatim>\<open>function kernelDensityEstimator(kernel, X) {
    return function(V) { return X.map(x => [x, d3.mean(V, v => kernel(x - v))]); } }\<close>\<close>

definition kernelDensityEstimator ::
  "(real \<Rightarrow> real) \<Rightarrow> real list \<Rightarrow> real list \<Rightarrow> (real \<times> real option) list" where
  "kernelDensityEstimator kern X V = map (\<lambda>x. (x, d3_mean V (\<lambda>v. kern (x - v)))) X"

text \<open>\<^verbatim>\<open>function kernelEpanechnikov(k) {
    return function(v) { return Math.abs(v /= k) <= 1 ? 0.75 * (1 - v * v) / k : 0; }; }\<close>
  The assignment \<^verbatim>\<open>v /= k\<close> rescales \<open>v\<close> before the test and before the product.\<close>

definition kernelEpanechnikov :: "real \<Rightarrow> real \<Rightarrow> real" where
  "kernelEpanechnikov k v =
     (let v' = v / k in if \<bar>v'\<bar> \<le> 1 then 0.75 * (1 - v' * v') / k else 0)"

text \<open>The Epanechnikov kernel in the specification's words:
  \<open>k(u) = 0.75 * (1 - u\<^sup>2)\<close> for \<open>|u| \<le> 1\<close>, else \<open>0\<close>.\<close>

definition epanechnikov_spec :: "real \<Rightarrow> real" where
  "epanechnikov_spec u = (if \<bar>u\<bar> \<le> 1 then 0.75 * (1 - u\<^sup>2) else 0)"

text \<open>The records of the ridgeline plot: the two fields \<^verbatim>\<open>createRidgelinePlot\<close> reads.
  \<open>Total = None\<close> is a \<open>Total\<close> for which \<open>isNaN\<close> holds; \<open>Generation = None\<close> is a
  \<open>Generation\<close> that is \<open>undefined\<close> or for which \<open>isNaN\<close> holds.\<close>

record pokemon_stats =
  Generation :: "real option"
  Total :: "real option"

datatype ridge_warning =
    TooFewPoints string    \<comment> \<open>"Generation k has less than 2 valid 'Total' data points. Skipping density."\<close>
  | NoMaxDensity string    \<comment> \<open>"Could not calculate valid max density for Generation k."\<close>

text \<open>What the \<^verbatim>\<open>.each\<close> callback does for one generation: it returns early after a
  \<^verbatim>\<open>console.warn\<close>, or it appends the path whose datum is the density curve.\<close>

datatype ridge_outcome =
    Skipped ridge_warning
  | Drawn "(real \<times> real) list"

text \<open>\<^verbatim>\<open>d3.max(density, p => p[1])\<close>: the greatest defined value, \<open>undefined\<close> when there
  is none.\<close>

definition d3_max :: "'a list \<Rightarrow> ('a \<Rightarrow> real option) \<Rightarrow> real option" where
  "d3_max values valueof =
     foldl (\<lambda>mx v. case valueof v of
                      None \<Rightarrow> mx
                    | Some y \<Rightarrow> (case mx of None \<Rightarrow> Some y
                                 | Some m \<Rightarrow> if m < y then Some y else Some m))
           None values"

text \<open>\<^verbatim>\<open>d.values.map(p => p.Total).filter(val => !isNaN(val))\<close>\<close>

definition genDataTotals :: "pokemon_stats list \<Rightarrow> real list" where
  "genDataTotals vals = List.map_filter (\<lambda>val. val) (map Total vals)"

text \<open>The callback of \<^verbatim>\<open>.each(function(d) {...})\<close>, with
  \<^verbatim>\<open>kde = kernelDensityEstimator(kernelEpanechnikov(20), xScale.ticks(60))\<close>; the tick
  array of the scale is the parameter \<open>ticks\<close>. The datum of the path keeps the points
  whose two coordinates are numbers.\<close>

definition ridge_each :: "real list \<Rightarrow> string \<times> pokemon_stats list \<Rightarrow> ridge_outcome" where
  "ridge_each ticks d =
     (let totals = genDataTotals (snd d) in
      if length totals < 2 then Skipped (TooFewPoints (fst d))
      else
        let density = kernelDensityEstimator (kernelEpanechnikov 20) ticks totals in
        case d3_max density snd of
          None \<Rightarrow> Skipped (NoMaxDensity (fst d))
        | Some maxDensity \<Rightarrow>
            if maxDensity \<le> 0 then Skipped (NoMaxDensity (fst d))
            else Drawn (List.map_filter (\<lambda>p. map_option (\<lambda>y. (fst p, y)) (snd p)) density))"

text \<open>\<^verbatim>\<open>svg.selectAll("g.ridge").data(dataByGenArray).enter().append("g").each(...)\<close>:
  the callback runs once for every element of the array it is given, in order.\<close>

definition drawRidges :: "real list \<Rightarrow> (string \<times> pokemon_stats list) list \<Rightarrow> ridge_outcome list" where
  "drawRidges ticks gens = map (ridge_each ticks) gens"

text \<open>The key of a record in \<open>dataByGen\<close>, \<^verbatim>\<open>String(d.Generation)\<close>. The conversion of a
  number to its string is the parameter \<open>str\<close>. (A record without a generation number
  never reaches the grouping; its key would be \<open>undefined\<close> or \<open>NaN\<close>.)\<close>

definition genKey :: "(real \<Rightarrow> string) \<Rightarrow> pokemon_stats \<Rightarrow> string" where
  "genKey str d = (case Generation d of Some g \<Rightarrow> str g | None \<Rightarrow> ''NaN'')"

text \<open>\<^verbatim>\<open>generations = [...new Set(data.map(d => d.Generation))]
      .filter(g => !isNaN(g)).sort((a, b) => a - b).map(String)\<close>;
  of the comparator's value \<open>a - b\<close> the sort reads the sign only.\<close>

definition generations :: "(real \<Rightarrow> string) \<Rightarrow> pokemon_stats list \<Rightarrow> string list" where
  "generations str data =
     map str (array_sort (\<lambda>a b. if a < b then - 1 else if b < a then 1 else 0)
                (List.map_filter (\<lambda>g. g) (uniq (map Generation data))))"

text \<open>The filter in front of the grouping:
  \<^verbatim>\<open>d => !isNaN(d.Total) && d.Generation !== undefined && !isNaN(d.Generation)\<close>\<close>

definition valid_record :: "pokemon_stats \<Rightarrow> bool" where
  "valid_record d \<longleftrightarrow> Total d \<noteq> None \<and> Generation d \<noteq> None"

text \<open>\<^verbatim>\<open>dataByGen = d3.group(data.filter(...), d => String(d.Generation))\<close>\<close>

definition dataByGen :: "(real \<Rightarrow> string) \<Rightarrow> pokemon_stats list \<Rightarrow> (string \<times> pokemon_stats list) list" where
  "dataByGen str data = d3_group (filter valid_record data) (genKey str)"

text \<open>\<^verbatim>\<open>dataByGenArray = generations.map(genKey =>
      ({ key: genKey, values: dataByGen.get(genKey) || [] })).filter(d => d.values.length > 0)\<close>\<close>

definition dataByGenArray :: "(real \<Rightarrow> string) \<Rightarrow> pokemon_stats list \<Rightarrow> (string \<times> pokemon_stats list) list" where
  "dataByGenArray str data =
     filter (\<lambda>d. length (snd d) > 0)
       (map (\<lambda>key. (key, case map_of (dataByGen str data) key of Some vals \<Rightarrow> vals | None \<Rightarrow> []))
          (generations str data))"

text \<open>\<^verbatim>\<open>d3.extent(data, d => d.Total)\<close> (d3-array): the least and the greatest of the
  values that are numbers, \<open>[undefined, undefined]\<close> (here \<open>None\<close>) when there is none.\<close>

definition d3_extent :: "'a list \<Rightarrow> ('a \<Rightarrow> real option) \<Rightarrow> (real \<times> real) option" where
  "d3_extent values valueof =
     foldl (\<lambda>ext v. case valueof v of
                       None \<Rightarrow> ext
                     | Some y \<Rightarrow> (case ext of
                                    None \<Rightarrow> Some (y, y)
                                  | Some (mn, mx) \<Rightarrow> Some (if y < mn then y else mn,
                                                          if mx < y then y else mx)))
           None values"

text \<open>What a call of \<^verbatim>\<open>createRidgelinePlot\<close> does with the data: one of its three early
  returns (each after a message on the console and in the chart), or the ridges. No path
  of the function throws.\<close>

datatype plot_result =
    NoValidData      \<comment> \<open>\<^verbatim>\<open>dataByGen.size === 0\<close>: "No data for Ridgeline Plot."\<close>
  | InvalidExtent    \<comment> \<open>no extent of \<open>Total\<close>: "Invalid 'Total' stat data."\<close>
  | BandTooSmall     \<comment> \<open>\<^verbatim>\<open>yScale.bandwidth() <= 0\<close>: "Chart height too small for Ridgeline."\<close>
  | Ridges "ridge_outcome list"

text \<open>\<^verbatim>\<open>createRidgelinePlot(data, containerId)\<close>, in the order of the source: the grouping and
  its check, the extent and its check, the band scale and its check, then the ridges.
  The container and the scales of d3 are parameters: \<open>ticks lo hi count\<close> stands for
  \<^verbatim>\<open>xScale.ticks(count)\<close> of the scale built from the extent \<open>[lo, hi]\<close>, and \<open>bandwidth\<close>
  for \<^verbatim>\<open>yScale.bandwidth()\<close>.\<close>

definition createRidgelinePlot ::
  "(real \<Rightarrow> string) \<Rightarrow> (real \<Rightarrow> real \<Rightarrow> nat \<Rightarrow> real list) \<Rightarrow> real \<Rightarrow> pokemon_stats list \<Rightarrow> plot_result" where
  "createRidgelinePlot str ticks bandwidth data =
     (if length (dataByGen str data) = 0 then NoValidData
      else case d3_extent data Total of
        None \<Rightarrow> InvalidExtent
      | Some totalExtent \<Rightarrow>
          if bandwidth \<le> 0 then BandTooSmall
          else Ridges (drawRidges (ticks (fst totalExtent) (snd totalExtent) 60)
                         (dataByGenArray str data)))"

text \<open>The records of the generation with the key \<open>k\<close> that pass the filter.\<close>

definition gen_records :: "(real \<Rightarrow> string) \<Rightarrow> pokemon_stats list \<Rightarrow> string \<Rightarrow> pokemon_stats list" where
  "gen_records str data k = filter (\<lambda>d. valid_record d \<and> genKey str d = k) data"

section \<open>Sankey diagram: nodes and links (\<^verbatim>\<open>displaySankey\<close>)\<close>

text \<open>One row of \<^verbatim>\<open>parallelData\<close>; the documentation of \<^verbatim>\<open>displaySankey\<close> gives the three
  fields as strings.\<close>

record flow_row =
  salaryBin :: string
  experienceLevel :: string
  workType :: string

text \<open>\<^verbatim>\<open>const salaryBins = Array.from(new Set(data.map(({salaryBin}) => salaryBin)))\<close>, the
  same for the two other fields, and
  \<^verbatim>\<open>nodes = [...salaryBins, ...experienceLevel, ...workType].map((id) => ({ id }))\<close>.\<close>

definition nodes :: "flow_row list \<Rightarrow> string list" where
  "nodes data = uniq (map salaryBin data) @ uniq (map experienceLevel data) @ uniq (map workType data)"

text \<open>\<^verbatim>\<open>nodeMap = Object.fromEntries(nodes.map(({ id }, index) => [id, index]))\<close>\<close>

definition nodeMap :: "flow_row list \<Rightarrow> (string \<rightharpoonup> nat)" where
  "nodeMap data = fromEntries (zip (nodes data) [0..<length (nodes data)])"

text \<open>\<^verbatim>\<open>linkMatrix = Array.from({ length: nodes.length }, () => Array(nodes.length).fill(0))\<close>\<close>

definition linkMatrix0 :: "nat \<Rightarrow> nat list list" where
  "linkMatrix0 n = replicate n (replicate n 0)"

text \<open>\<^verbatim>\<open>linkMatrix[i][j] += 1\<close>, for indices inside the matrix.\<close>

definition incr :: "nat list list \<Rightarrow> nat \<Rightarrow> nat \<Rightarrow> nat list list" where
  "incr m i j = m[i := (m ! i)[j := m ! i ! j + 1]]"

text \<open>The body of \<^verbatim>\<open>data.forEach\<close>:
  \<^verbatim>\<open>linkMatrix[nodeMap[salaryBin]][nodeMap[experienceLevel]] += 1\<close> and then
  \<^verbatim>\<open>linkMatrix[nodeMap[experienceLevel]][nodeMap[workType]] += 1\<close>.
  A key that \<open>nodeMap\<close> does not hold would index the matrix with \<open>undefined\<close>; the step is
  then \<open>None\<close>. (It never is: every field value of every row is in \<open>nodes\<close>.)\<close>

definition link_step :: "(string \<rightharpoonup> nat) \<Rightarrow> nat list list \<Rightarrow> flow_row \<Rightarrow> nat list list option" where
  "link_step nm m r =
     (case nm (salaryBin r) of None \<Rightarrow> None | Some a \<Rightarrow>
      case nm (experienceLevel r) of None \<Rightarrow> None | Some b \<Rightarrow>
      case nm (workType r) of None \<Rightarrow> None | Some c \<Rightarrow>
        Some (incr (incr m a b) b c))"

fun forEach_links :: "(string \<rightharpoonup> nat) \<Rightarrow> nat list list \<Rightarrow> flow_row list \<Rightarrow> nat list list option" where
  "forEach_links nm m [] = Some m"
| "forEach_links nm m (r # rs) =
     (case link_step nm m r of None \<Rightarrow> None | Some m' \<Rightarrow> forEach_links nm m' rs)"

record link =
  source :: nat
  target :: nat
  link_value :: nat

text \<open>The two nested \<^verbatim>\<open>for\<close> loops: rows \<open>i\<close> from \<open>0\<close>, inside them columns \<open>j\<close> from \<open>0\<close>,
  a link pushed for every positive entry.\<close>

definition links_of :: "nat list list \<Rightarrow> nat \<Rightarrow> link list" where
  "links_of m n =
     concat (map (\<lambda>i. concat (map (\<lambda>j. if m ! i ! j > 0
                                         then [\<lparr>source = i, target = j, link_value = m ! i ! j\<rparr>]
                                         else []) [0..<n])) [0..<n])"

text \<open>The input \<^verbatim>\<open>{nodes, links}\<close> that \<^verbatim>\<open>displaySankey\<close> hands to the layout.\<close>

definition displaySankey_graph :: "flow_row list \<Rightarrow> (string list \<times> link list) option" where
  "displaySankey_graph data =
     (let n = length (nodes data) in
      case forEach_links (nodeMap data) (linkMatrix0 n) data of
        None \<Rightarrow> None
      | Some m \<Rightarrow> Some (nodes data, links_of m n))"

text \<open>The number of salary bins and of experience levels among the nodes: the first
  \<open>stage1\<close> nodes come from \<open>salaryBin\<close>, the next \<open>stage2\<close> from \<open>experienceLevel\<close>, the
  rest from \<open>workType\<close>.\<close>

definition stage1 :: "flow_row list \<Rightarrow> nat" where
  "stage1 data = length (uniq (map salaryBin data))"

definition stage2 :: "flow_row list \<Rightarrow> nat" where
  "stage2 data = length (uniq (map experienceLevel data))"

text \<open>No string is the value of two different fields.\<close>

definition stages_disjoint :: "flow_row list \<Rightarrow> bool" where
  "stages_disjoint data \<longleftrightarrow>
     salaryBin ` set data \<inter> experienceLevel ` set data = {}
   \<and> salaryBin ` set data \<inter> workType ` set data = {}
   \<and> experienceLevel ` set data \<inter> workType ` set data = {}"

text \<open>The sum of the values of the links from a node in \<open>S\<close> to a node in \<open>T\<close>.\<close>

definition flow_between :: "link list \<Rightarrow> (nat \<Rightarrow> bool) \<Rightarrow> (nat \<Rightarrow> bool) \<Rightarrow> nat" where
  "flow_between ls S T = sum_list (map link_value (filter (\<lambda>l. S (source l) \<and> T (target l)) ls))"

text \<open>The sum over the links from a salary-bin node to an experience-level node, and over
  the links from an experience-level node to a work-type node.\<close>

definition flow_1_to_2 :: "flow_row list \<Rightarrow> link list \<Rightarrow> nat" where
  "flow_1_to_2 data ls =
     flow_between ls (\<lambda>i. i < stage1 data) (\<lambda>j. stage1 data \<le> j \<and> j < stage1 data + stage2 data)"

definition flow_2_to_3 :: "flow_row list \<Rightarrow> link list \<Rightarrow> nat" where
  "flow_2_to_3 data ls =
     flow_between ls (\<lambda>i. stage1 data \<le> i \<and> i < stage1 data + stage2 data)
       (\<lambda>j. stage1 data + stage2 data \<le> j \<and> j < length (nodes data))"

text \<open>The sum over the links that enter node \<open>k\<close> from a salary-bin node, and over the
  links that leave node \<open>k\<close> for a work-type node.\<close>

definition flow_into :: "flow_row list \<Rightarrow> link list \<Rightarrow> nat \<Rightarrow> nat" where
  "flow_into data ls k = flow_between ls (\<lambda>i. i < stage1 data) (\<lambda>j. j = k)"

definition flow_out_of :: "flow_row list \<Rightarrow> link list \<Rightarrow> nat \<Rightarrow> nat" where
  "flow_out_of data ls k =
     flow_between ls (\<lambda>i. i = k) (\<lambda>j. stage1 data + stage2 data \<le> j \<and> j < length (nodes data))"

text \<open>The number of times the rows count the pair of node indices \<open>(i, j)\<close>: once for a row
  whose salary bin has index \<open>i\<close> and whose experience level has index \<open>j\<close>, once for a row
  whose experience level has index \<open>i\<close> and whose work type has index \<open>j\<close>.\<close>

definition pair_count :: "flow_row list \<Rightarrow> nat \<Rightarrow> nat \<Rightarrow> nat" where
  "pair_count data i j =
     length (filter (\<lambda>r. nodeMap data (salaryBin r) = Some i \<and> nodeMap data (experienceLevel r) = Some j) data)
   + length (filter (\<lambda>r. nodeMap data (experienceLevel r) = Some i \<and> nodeMap data (workType r) = Some j) data)"

section \<open>Stacked bar chart: counts by primary and secondary type (\<^verbatim>\<open>createStackedBarChart\<close>)\<close>

text \<open>The fields of a record that the aggregation reads.\<close>

record pokemon_types =
  Type_1 :: string
  Type_2 :: string

text \<open>\<^verbatim>\<open>secondaryTypes = [...new Set(data.map(d => d.Type_2))]
    .sort((a, b) => a === "None" ? -1 : b === "None" ? 1 : a.localeCompare(b))\<close>.
  The collation \<^verbatim>\<open>localeCompare\<close> depends on the locale of the engine; it is the
  parameter \<open>localeCompare\<close>.\<close>

definition secondaryTypes :: "(string \<Rightarrow> string \<Rightarrow> int) \<Rightarrow> pokemon_types list \<Rightarrow> string list" where
  "secondaryTypes localeCompare data =
     array_sort (\<lambda>a b. if a = ''None'' then - 1 else if b = ''None'' then 1 else localeCompare a b)
       (uniq (map Type_2 data))"

text \<open>\<^verbatim>\<open>d3.rollup(values, reduce, key)\<close> (d3-array): the values are grouped by their key
  as \<^verbatim>\<open>d3.group\<close> groups them, and each group is then replaced by \<open>reduce\<close> of its
  values.\<close>

definition d3_rollup :: "'a list \<Rightarrow> ('a list \<Rightarrow> 'b) \<Rightarrow> ('a \<Rightarrow> 'k) \<Rightarrow> ('k \<times> 'b) list" where
  "d3_rollup values reduce keyof =
     map (\<lambda>(k, g). (k, reduce g)) (foldl (group_push keyof) [] values)"

datatype bar_warning =
  UnexpectedSecondaryType string string
    \<comment> \<open>"Unexpected secondary type: Type_2 for primary type Type_1 ..."\<close>

text \<open>The reducer handed to \<^verbatim>\<open>d3.rollup\<close>:
  \<^verbatim>\<open>counts = Object.fromEntries(secondaryTypes.map(secType => [secType, 0]));
  leaves.forEach(leaf => { if (counts[leaf.Type_2] !== undefined) counts[leaf.Type_2]++;
                           else console.warn(...) });
  counts.total = leaves.length; return counts;\<close>
  The object \<open>counts\<close> is the map of its own properties; the second component collects
  what went to \<^verbatim>\<open>console.warn\<close>. The total is a property of the same object, under the
  key \<open>total\<close>.\<close>

definition leaf_step ::
  "(string \<rightharpoonup> nat) \<times> bar_warning list \<Rightarrow> pokemon_types \<Rightarrow> (string \<rightharpoonup> nat) \<times> bar_warning list" where
  "leaf_step cw leaf =
     (case fst cw (Type_2 leaf) of
        Some c \<Rightarrow> ((fst cw)(Type_2 leaf \<mapsto> c + 1), snd cw)
      | None \<Rightarrow> (fst cw, snd cw @ [UnexpectedSecondaryType (Type_2 leaf) (Type_1 leaf)]))"

definition leaves_counts ::
  "string list \<Rightarrow> pokemon_types list \<Rightarrow> (string \<rightharpoonup> nat) \<times> bar_warning list" where
  "leaves_counts secTypes leaves =
     (let cw = foldl leaf_step (fromEntries (map (\<lambda>secType. (secType, 0)) secTypes), []) leaves
      in ((fst cw)(''total'' \<mapsto> length leaves), snd cw))"

definition rollupByType ::
  "(string \<Rightarrow> string \<Rightarrow> int) \<Rightarrow> pokemon_types list
     \<Rightarrow> (string \<times> (string \<rightharpoonup> nat) \<times> bar_warning list) list" where
  "rollupByType localeCompare data =
     d3_rollup data (leaves_counts (secondaryTypes localeCompare data)) Type_1"

text \<open>\<^verbatim>\<open>countsByType\<close>, as the array of its entries \<^verbatim>\<open>[primaryType, counts]\<close>, and the
  warnings logged while it was built.\<close>

definition countsByType ::
  "(string \<Rightarrow> string \<Rightarrow> int) \<Rightarrow> pokemon_types list \<Rightarrow> (string \<times> (string \<rightharpoonup> nat)) list" where
  "countsByType localeCompare data = map (\<lambda>(k, cw). (k, fst cw)) (rollupByType localeCompare data)"

definition countsByType_warnings ::
  "(string \<Rightarrow> string \<Rightarrow> int) \<Rightarrow> pokemon_types list \<Rightarrow> bar_warning list" where
  "countsByType_warnings localeCompare data =
     concat (map (\<lambda>(k, cw). snd cw) (rollupByType localeCompare data))"

text \<open>\<^verbatim>\<open>a.total\<close> of a counts object (the property is always set by the reducer).\<close>

definition total_of :: "(string \<rightharpoonup> nat) \<Rightarrow> nat" where
  "total_of counts = (case counts ''total'' of Some n \<Rightarrow> n | None \<Rightarrow> 0)"

text \<open>\<^verbatim>\<open>Array.from(countsByType.entries()).sort(([,a], [,b]) => b.total - a.total)\<close>\<close>

definition sortedEntries ::
  "(string \<Rightarrow> string \<Rightarrow> int) \<Rightarrow> pokemon_types list \<Rightarrow> (string \<times> (string \<rightharpoonup> nat)) list" where
  "sortedEntries localeCompare data =
     array_sort (\<lambda>e1 e2. int (total_of (snd e2)) - int (total_of (snd e1)))
       (countsByType localeCompare data)"

text \<open>\<^verbatim>\<open>.map(([primaryType, counts]) => ({ primaryType, ...counts }))\<close>: the property
  \<open>primaryType\<close> first, then every own property of \<open>counts\<close>, a property of the same name
  replacing it.\<close>

datatype jsval = Str string | Num nat

definition spread_counts :: "string \<Rightarrow> (string \<rightharpoonup> nat) \<Rightarrow> (string \<rightharpoonup> jsval)" where
  "spread_counts primaryType counts =
     (\<lambda>key. case counts key of
               Some n \<Rightarrow> Some (Num n)
             | None \<Rightarrow> if key = ''primaryType'' then Some (Str primaryType) else None)"

definition sortedCountsArray ::
  "(string \<Rightarrow> string \<Rightarrow> int) \<Rightarrow> pokemon_types list \<Rightarrow> (string \<rightharpoonup> jsval) list" where
  "sortedCountsArray localeCompare data =
     map (\<lambda>(primaryType, counts). spread_counts primaryType counts) (sortedEntries localeCompare data)"

text \<open>The number of records with primary type \<open>k\<close> and secondary type \<open>t\<close>, and the number
  of records with primary type \<open>k\<close>.\<close>

definition sub_count :: "pokemon_types list \<Rightarrow> string \<Rightarrow> string \<Rightarrow> nat" where
  "sub_count data k t = length (filter (\<lambda>d. Type_1 d = k \<and> Type_2 d = t) data)"

definition group_size :: "pokemon_types list \<Rightarrow> string \<Rightarrow> nat" where
  "group_size data k = length (filter (\<lambda>d. Type_1 d = k) data)"

section \<open>Histogram of salaries (\<^verbatim>\<open>displayHistogram\<close>)\<close>

definition HISTOGRAM_NUM_BINS :: nat where
  "HISTOGRAM_NUM_BINS = 30"

text \<open>\<^verbatim>\<open>Math.max(...data)\<close>; for an empty array it is \<open>-Infinity\<close>, which is \<open>None\<close> here.\<close>

definition math_max :: "real list \<Rightarrow> real option" where
  "math_max data = (case data of [] \<Rightarrow> None | x # xs \<Rightarrow> Some (foldl max x xs))"

text \<open>\<^verbatim>\<open>maxBinValue = Math.ceil(maxValue / HISTOGRAM_NUM_BINS) * (HISTOGRAM_NUM_BINS + 1)\<close>\<close>

definition maxBinValue :: "real list \<Rightarrow> real option" where
  "maxBinValue data =
     map_option (\<lambda>maxValue. of_int \<lceil>maxValue / real HISTOGRAM_NUM_BINS\<rceil> * (real HISTOGRAM_NUM_BINS + 1))
       (math_max data)"

text \<open>A bin of \<^verbatim>\<open>d3.histogram\<close>: the array of the values it holds, with the properties
  \<open>x0\<close> and \<open>x1\<close>.\<close>

record bin =
  bin_x0 :: real
  bin_x1 :: real
  bin_values :: "real list"

text \<open>\<^verbatim>\<open>d3.bisectRight(a, x, lo, hi)\<close> (d3-array):
  \<^verbatim>\<open>while (lo < hi) { var mid = lo + hi >>> 1;
                      if (compare(a[mid], x) > 0) hi = mid; else lo = mid + 1; } return lo;\<close>\<close>

function bisect_right :: "real list \<Rightarrow> real \<Rightarrow> nat \<Rightarrow> nat \<Rightarrow> nat" where
  "bisect_right a x lo hi =
     (if lo < hi
      then (let mid = (lo + hi) div 2
            in if x < a ! mid then bisect_right a x lo mid else bisect_right a x (mid + 1) hi)
      else lo)"
  by pat_completeness auto
termination
  by (relation "measure (\<lambda>(a, x, lo, hi). hi - lo)") auto

declare bisect_right.simps [simp del]

text \<open>\<^verbatim>\<open>bins[k].push(x)\<close>\<close>

definition bin_push :: "bin list \<Rightarrow> nat \<Rightarrow> real \<Rightarrow> bin list" where
  "bin_push bins k x = bins[k := (bins ! k)\<lparr>bin_values := bin_values (bins ! k) @ [x]\<rparr>]"

text \<open>The thresholds the generator keeps:
  \<^verbatim>\<open>while (tz[0] <= x0) tz.shift(), --m;  while (tz[m - 1] > x1) tz.pop(), --m;\<close>\<close>

definition kept_thresholds :: "real \<Rightarrow> real \<Rightarrow> real list \<Rightarrow> real list" where
  "kept_thresholds x0 x1 thresholds =
     rev (dropWhile (\<lambda>t. x1 < t) (rev (dropWhile (\<lambda>t. t \<le> x0) thresholds)))"

text \<open>The generator \<^verbatim>\<open>d3.histogram().value(d => d).domain([x0, x1]).thresholds(array)\<close>
  applied to \<open>data\<close> (d3-array). With \<open>m\<close> thresholds kept it makes \<open>m + 1\<close> bins:
  \<^verbatim>\<open>for (i = 0; i <= m; ++i) { bin = bins[i] = [];
       bin.x0 = i > 0 ? tz[i - 1] : x0;  bin.x1 = i < m ? tz[i] : x1; }\<close>\<close>

definition init_bins :: "real \<Rightarrow> real \<Rightarrow> real list \<Rightarrow> bin list" where
  "init_bins x0 x1 tz =
     map (\<lambda>i. \<lparr>bin_x0 = (if 0 < i then tz ! (i - 1) else x0),
                bin_x1 = (if i < length tz then tz ! i else x1),
                bin_values = []\<rparr>) [0..<length tz + 1]"

text \<open>Then it assigns the values, ignoring any outside the domain:
  \<^verbatim>\<open>if (x0 <= x && x <= x1) bins[bisect(tz, x, 0, m)].push(data[i]);\<close>\<close>

definition assign_value :: "real \<Rightarrow> real \<Rightarrow> real list \<Rightarrow> bin list \<Rightarrow> real \<Rightarrow> bin list" where
  "assign_value x0 x1 tz bins x =
     (if x0 \<le> x \<and> x \<le> x1 then bin_push bins (bisect_right tz x 0 (length tz)) x else bins)"

definition d3_histogram :: "real \<Rightarrow> real \<Rightarrow> real list \<Rightarrow> real list \<Rightarrow> bin list" where
  "d3_histogram x0 x1 thresholds data =
     (let tz = kept_thresholds x0 x1 thresholds
      in foldl (assign_value x0 x1 tz) (init_bins x0 x1 tz) data)"

text \<open>The sum of the counts of the bins (\<^verbatim>\<open>d.length\<close> of each bin).\<close>

definition bin_count :: "bin list \<Rightarrow> nat" where
  "bin_count bins = sum_list (map (\<lambda>b. length (bin_values b)) bins)"

text \<open>\<^verbatim>\<open>bins = d3.histogram().value(d => d).domain([0, maxBinValue])
             .thresholds(x.ticks(HISTOGRAM_NUM_BINS))(data)\<close>,
  where \<open>x\<close> is the linear scale with the domain \<open>[0, maxBinValue]\<close>. The tick array of
  the scale (d3-scale) is the parameter: \<open>ticks lo hi count\<close> stands for \<^verbatim>\<open>x.ticks(count)\<close>
  of a scale with the domain \<open>[lo, hi]\<close>.\<close>

definition displayHistogram_bins :: "(real \<Rightarrow> real \<Rightarrow> nat \<Rightarrow> real list) \<Rightarrow> real list \<Rightarrow> bin list option" where
  "displayHistogram_bins ticks data =
     (case maxBinValue data of
        None \<Rightarrow> None
      | Some mbv \<Rightarrow> Some (d3_histogram 0 mbv (ticks 0 mbv HISTOGRAM_NUM_BINS) data))"

section \<open>Auxiliary notions for the proofs\<close>

text \<open>The index map of a node list, as \<open>nodeMap\<close> builds it.\<close>

definition index_map :: "'a list \<Rightarrow> ('a \<rightharpoonup> nat)" where
  "index_map ns = fromEntries (zip ns [0..<length ns])"

text \<open>An \<open>n \<times> n\<close> matrix.\<close>

definition square :: "nat list list \<Rightarrow> nat \<Rightarrow> bool" where
  "square m n \<longleftrightarrow> length m = n \<and> (\<forall>i<n. length (m ! i) = n)"

text \<open>The sum of the entries of a matrix at the positions that satisfy \<open>P\<close>.\<close>

definition msum :: "(nat \<Rightarrow> nat \<Rightarrow> bool) \<Rightarrow> nat list list \<Rightarrow> nat \<Rightarrow> nat" where
  "msum P m n = (\<Sum>i<n. \<Sum>j<n. if P i j then m ! i ! j else 0)"

text \<open>The index of a field value (0 where the map has none), the rows all of whose fields
  have an index below \<open>n\<close>, and what one row adds to the entries at the positions that
  satisfy \<open>P\<close>.\<close>

definition idx :: "(string \<rightharpoonup> nat) \<Rightarrow> string \<Rightarrow> nat" where
  "idx nm v = (case nm v of Some k \<Rightarrow> k | None \<Rightarrow> 0)"

definition row_ok :: "(string \<rightharpoonup> nat) \<Rightarrow> nat \<Rightarrow> flow_row \<Rightarrow> bool" where
  "row_ok nm n r \<longleftrightarrow>
     (\<exists>a<n. nm (salaryBin r) = Some a) \<and> (\<exists>b<n. nm (experienceLevel r) = Some b)
   \<and> (\<exists>c<n. nm (workType r) = Some c)"

definition row_count :: "(nat \<Rightarrow> nat \<Rightarrow> bool) \<Rightarrow> (string \<rightharpoonup> nat) \<Rightarrow> flow_row \<Rightarrow> nat" where
  "row_count P nm r =
     (if P (idx nm (salaryBin r)) (idx nm (experienceLevel r)) then 1 else 0)
   + (if P (idx nm (experienceLevel r)) (idx nm (workType r)) then 1 else 0)"

text \<open>The groups of \<^verbatim>\<open>d3.rollup\<close>, said directly: one group per distinct key, in first-seen
  order, holding the values of that key in their order.\<close>

definition groups_of :: "('a \<Rightarrow> 'k) \<Rightarrow> 'a list \<Rightarrow> ('k \<times> 'a list) list" where
  "groups_of keyof xs = map (\<lambda>k. (k, filter (\<lambda>x. keyof x = k) xs)) (uniq (map keyof xs))"

section \<open>Properties of the density estimator\<close>

lemma d3_mean_foldl:
  "foldl (\<lambda>(count, sum) v. (count + 1, sum + f v)) (c, s) vs
     = (c + length vs, s + sum_list (map f vs))"
  by (induction vs arbitrary: c s) (simp_all add: algebra_simps)

lemma d3_mean_eq:
  "d3_mean vs f = (if vs = [] then None else Some (sum_list (map f vs) / real (length vs)))"
  using d3_mean_foldl [of f 0 0 vs] by (simp add: d3_mean_def)

lemma kernelEpanechnikov_spec:
  "kernelEpanechnikov k v = epanechnikov_spec (v / k) / k"
  by (simp add: kernelEpanechnikov_def epanechnikov_spec_def Let_def power2_eq_square)

text \<open>
  C1. For a non-empty sample \<open>V\<close>, any query points \<open>X\<close>, any kernel \<open>K\<close> and a positive
  bandwidth \<open>h\<close>, the estimator returns one point per query point, in the order of the
  query points, and the density at \<open>x\<close> is the mean over the sample values \<open>v\<close> of
  \<open>K ((x - v) / h) / h\<close>. The source folds the bandwidth into the kernel it hands to the
  estimator; its own kernel, \<open>kernelEpanechnikov h\<close>, is the Epanechnikov kernel rescaled
  in exactly this way.
\<close>

theorem estimateDensity_formula:
  assumes "V \<noteq> []" and "0 < h"
  shows "length (kernelDensityEstimator (\<lambda>d. K (d / h) / h) X V) = length X
       \<and> map fst (kernelDensityEstimator (\<lambda>d. K (d / h) / h) X V) = X
       \<and> kernelDensityEstimator (\<lambda>d. K (d / h) / h) X V
           = map (\<lambda>x. (x, Some ((\<Sum>v\<leftarrow>V. K ((x - v) / h) / h) / real (length V)))) X
       \<and> kernelDensityEstimator (kernelEpanechnikov h) X V
           = map (\<lambda>x. (x, Some ((\<Sum>v\<leftarrow>V. epanechnikov_spec ((x - v) / h) / h) / real (length V)))) X"
proof -
  have eq: "kernelDensityEstimator kern X V
              = map (\<lambda>x. (x, Some ((\<Sum>v\<leftarrow>V. kern (x - v)) / real (length V)))) X" for kern
    using assms(1) by (simp add: kernelDensityEstimator_def d3_mean_eq)
  have ep: "kernelEpanechnikov h = (\<lambda>d. epanechnikov_spec (d / h) / h)"
    by (rule ext) (rule kernelEpanechnikov_spec)
  show ?thesis
    by (simp add: eq ep comp_def)
qed

theorem estimateDensity_formula_witness:
  "[10, 10, 10] \<noteq> ([]::real list) \<and> (0::real) < 5
   \<and> kernelDensityEstimator (kernelEpanechnikov 5) [10, 12] [10, 10, 10]
       = [(10, Some (3 / 20)), (12, Some (63 / 500))]"
proof -
  have a: "[10, 10, 10] \<noteq> ([]::real list)" by simp
  have b: "(0::real) < 5" by simp
  show ?thesis
    using estimateDensity_formula [OF a b, of "\<lambda>u. u" "[10, 12]"]
    by (simp add: epanechnikov_spec_def power2_eq_square)
qed

section \<open>Properties of the Sankey graph\<close>

subsection \<open>Sets in insertion order and the index map\<close>

lemma uniq_snoc: "uniq (xs @ [x]) = set_add (uniq xs) x"
  by (simp add: uniq_def)

lemma set_uniq: "set (uniq xs) = set xs"
  by (induction xs rule: rev_induct) (auto simp: uniq_snoc set_add_def uniq_def)

lemma distinct_uniq: "distinct (uniq xs)"
  by (induction xs rule: rev_induct) (auto simp: uniq_snoc set_add_def uniq_def)

lemma first_seen_snoc:
  "first_seen (xs @ [x]) = first_seen xs @ (if x \<in> set xs then [] else [x])"
proof -
  have 1: "filter (\<lambda>i. (xs @ [x]) ! i \<notin> set (take i (xs @ [x]))) [0..<length xs]
      = filter (\<lambda>i. xs ! i \<notin> set (take i xs)) [0..<length xs]"
    by (rule filter_cong) (auto simp: nth_append)
  have 2: "map (\<lambda>i. (xs @ [x]) ! i) (filter (\<lambda>i. xs ! i \<notin> set (take i xs)) [0..<length xs])
      = map (\<lambda>i. xs ! i) (filter (\<lambda>i. xs ! i \<notin> set (take i xs)) [0..<length xs])"
    by (rule map_cong) (auto simp: nth_append)
  show ?thesis
    unfolding first_seen_def using 1 2 by simp
qed

lemma uniq_first_seen: "uniq xs = first_seen xs"
proof (induction xs rule: rev_induct)
  case Nil
  show ?case by (simp add: uniq_def first_seen_def)
next
  case (snoc x xs)
  have "uniq (xs @ [x]) = uniq xs @ (if x \<in> set xs then [] else [x])"
    by (simp add: uniq_snoc set_add_def set_uniq)
  then show ?case
    by (simp only: first_seen_snoc snoc.IH)
qed

lemma fromEntries_snoc: "fromEntries (kvs @ [(k, v)]) = (fromEntries kvs)(k \<mapsto> v)"
  by (simp add: fromEntries_def)

lemma index_map_snoc: "index_map (ns @ [x]) = (index_map ns)(x \<mapsto> length ns)"
  by (simp add: index_map_def fromEntries_snoc)

lemma index_map_last:
  "index_map ns v = Some k \<longleftrightarrow>
     k < length ns \<and> ns ! k = v \<and> (\<forall>j. k < j \<and> j < length ns \<longrightarrow> ns ! j \<noteq> v)"
proof (induction ns rule: rev_induct)
  case Nil
  show ?case by (simp add: index_map_def fromEntries_def)
next
  case (snoc x ns)
  show ?case
  proof (cases "v = x")
    case True
    let ?last = "k < Suc (length ns) \<and> (ns @ [x]) ! k = x
        \<and> (\<forall>j. k < j \<and> j < Suc (length ns) \<longrightarrow> (ns @ [x]) ! j \<noteq> x)"
    have "k = length ns \<longleftrightarrow> ?last"
    proof
      assume "k = length ns"
      then show ?last by auto
    next
      assume a: ?last
      show "k = length ns"
      proof (rule ccontr)
        assume "k \<noteq> length ns"
        with a have "k < length ns" by simp
        moreover have "length ns < Suc (length ns)" by simp
        ultimately have "(ns @ [x]) ! length ns \<noteq> x" using a by blast
        then show False by simp
      qed
    qed
    with True show ?thesis
      by (auto simp add: index_map_snoc)
  next
    case False
    have "(k < length ns \<and> ns ! k = v \<and> (\<forall>j. k < j \<and> j < length ns \<longrightarrow> ns ! j \<noteq> v)) \<longleftrightarrow>
      (k < Suc (length ns) \<and> (ns @ [x]) ! k = v \<and> (\<forall>j. k < j \<and> j < Suc (length ns) \<longrightarrow> (ns @ [x]) ! j \<noteq> v))"
      using False by (auto simp: nth_append less_Suc_eq)
    with False show ?thesis
      by (simp add: index_map_snoc snoc.IH)
  qed
qed

subsection \<open>The link matrix\<close>

lemma square_linkMatrix0: "square (linkMatrix0 n) n"
  by (simp add: square_def linkMatrix0_def)

lemma linkMatrix0_nth: "i < n \<Longrightarrow> j < n \<Longrightarrow> linkMatrix0 n ! i ! j = 0"
  by (simp add: linkMatrix0_def)

lemma square_incr: "square m n \<Longrightarrow> square (incr m i j) n"
  by (cases "i < n") (auto simp: square_def incr_def nth_list_update)

lemma incr_nth:
  "square m n \<Longrightarrow> i < n \<Longrightarrow> j < n \<Longrightarrow> i' < n \<Longrightarrow> j' < n \<Longrightarrow>
   incr m i j ! i' ! j' = m ! i' ! j' + (if i' = i \<and> j' = j then 1 else 0)"
  by (auto simp: square_def incr_def nth_list_update)

lemma msum_incr:
  assumes "square m n" "i < n" "j < n"
  shows "msum P (incr m i j) n = msum P m n + (if P i j then 1 else 0)"
proof -
  have "msum P (incr m i j) n
      = (\<Sum>i'<n. \<Sum>j'<n. (if P i' j' then m ! i' ! j' else 0) + (if i' = i \<and> j' = j \<and> P i j then 1 else 0))"
    unfolding msum_def
    by (intro sum.cong refl) (auto simp: incr_nth [OF assms])
  also have "\<dots> = msum P m n + (\<Sum>i'<n. \<Sum>j'<n. if i' = i \<and> j' = j \<and> P i j then 1 else 0)"
    by (simp add: msum_def sum.distrib)
  also have "(\<Sum>i'<n. \<Sum>j'<n. if i' = i \<and> j' = j \<and> P i j then 1 else 0)
           = (\<Sum>i'<n. if i' = i then (\<Sum>j'<n. if j' = j then (if P i j then 1 else 0) else 0) else (0::nat))"
    by (intro sum.cong refl) auto
  also have "\<dots> = (if P i j then 1 else 0)"
    using assms(2,3) by (simp add: sum.delta)
  finally show ?thesis .
qed

lemma msum_zero: "msum P (linkMatrix0 n) n = 0"
  by (simp add: msum_def linkMatrix0_nth)

lemma link_step_ok:
  assumes "square m n" "row_ok nm n r"
  shows "\<exists>m'. link_step nm m r = Some m' \<and> square m' n
            \<and> (\<forall>P. msum P m' n = msum P m n + row_count P nm r)"
proof -
  from assms(2) obtain a b c where
    abc: "a < n" "b < n" "c < n" "nm (salaryBin r) = Some a" "nm (experienceLevel r) = Some b"
      "nm (workType r) = Some c"
    by (auto simp: row_ok_def)
  have s1: "square (incr m a b) n" using assms(1) by (rule square_incr)
  have s2: "square (incr (incr m a b) b c) n" using s1 by (rule square_incr)
  have "msum P (incr (incr m a b) b c) n = msum P m n + row_count P nm r" for P
    by (simp add: msum_incr [OF s1 abc(2,3)] msum_incr [OF assms(1) abc(1,2)] row_count_def idx_def abc)
  with s2 show ?thesis
    by (simp add: link_step_def abc)
qed

lemma forEach_links_ok:
  assumes "square m n" "\<forall>r\<in>set rs. row_ok nm n r"
  shows "\<exists>m'. forEach_links nm m rs = Some m' \<and> square m' n
            \<and> (\<forall>P. msum P m' n = msum P m n + (\<Sum>r\<leftarrow>rs. row_count P nm r))"
  using assms
proof (induction rs arbitrary: m)
  case Nil
  then show ?case by simp
next
  case (Cons r rs)
  from Cons.prems obtain m1 where
    m1: "link_step nm m r = Some m1" "square m1 n" "\<forall>P. msum P m1 n = msum P m n + row_count P nm r"
    using link_step_ok [of m n nm r] by auto
  from Cons.IH [OF m1(2)] Cons.prems(2) obtain m' where
    m': "forEach_links nm m1 rs = Some m'" "square m' n"
       "\<forall>P. msum P m' n = msum P m1 n + (\<Sum>r\<leftarrow>rs. row_count P nm r)"
    by auto
  show ?case
    using m1 m' by (simp add: add.assoc)
qed

lemma sum_list_inner:
  "sum_list (map link_value (filter (\<lambda>l. P (source l) (target l))
       (concat (map (\<lambda>j. if m ! i ! j > 0 then [\<lparr>source = i, target = j, link_value = m ! i ! j\<rparr>] else []) js))))
   = (\<Sum>j\<leftarrow>js. if P i j then m ! i ! j else 0)"
  by (induction js) auto

lemma sum_links_of:
  "sum_list (map link_value (filter (\<lambda>l. P (source l) (target l)) (links_of m n))) = msum P m n"
proof -
  have "sum_list (map link_value (filter (\<lambda>l. P (source l) (target l))
       (concat (map (\<lambda>i. concat (map (\<lambda>j. if m ! i ! j > 0 then [\<lparr>source = i, target = j, link_value = m ! i ! j\<rparr>] else []) js)) is))))
      = (\<Sum>i\<leftarrow>is. \<Sum>j\<leftarrow>js. if P i j then m ! i ! j else 0)" for "is" js
    by (induction "is") (simp_all add: sum_list_inner)
  then show ?thesis
    by (simp add: links_of_def msum_def interv_sum_list_conv_sum_set_nat atLeast0LessThan)
qed

subsection \<open>The links of the graph\<close>

lemma nodeMap_index_map: "nodeMap data = index_map (nodes data)"
  by (simp add: nodeMap_def index_map_def)

lemma index_map_dom: "v \<in> set ns \<Longrightarrow> \<exists>k<length ns. index_map ns v = Some k"
proof (induction ns rule: rev_induct)
  case Nil
  then show ?case by simp
next
  case (snoc x ns)
  show ?case
  proof (cases "v = x")
    case True
    then show ?thesis by (simp add: index_map_snoc)
  next
    case False
    with snoc obtain k where "k < length ns" "index_map ns v = Some k" by auto
    with False show ?thesis by (auto simp: index_map_snoc less_Suc_eq)
  qed
qed

lemma index_map_distinct:
  assumes "distinct ns"
  shows "index_map ns v = Some k \<longleftrightarrow> k < length ns \<and> ns ! k = v"
  using assms by (auto simp: index_map_last nth_eq_iff_index_eq)

lemma rows_ok: "r \<in> set data \<Longrightarrow> row_ok (nodeMap data) (length (nodes data)) r"
  unfolding row_ok_def nodeMap_index_map
  by (intro conjI index_map_dom) (auto simp: nodes_def set_uniq)

lemma sum_list_indicator: "(\<Sum>r\<leftarrow>rs. if Q r then 1 else 0) = length (filter Q rs)"
  by (induction rs) auto

lemma msum_single:
  assumes "i < n" "j < n"
  shows "msum (\<lambda>i' j'. i' = i \<and> j' = j) m n = m ! i ! j"
proof -
  have "msum (\<lambda>i' j'. i' = i \<and> j' = j) m n
      = (\<Sum>i'<n. if i' = i then (\<Sum>j'<n. if j' = j then m ! i ! j else 0) else 0)"
    unfolding msum_def by (intro sum.cong refl) auto
  also have "\<dots> = m ! i ! j"
    using assms by (simp add: sum.delta)
  finally show ?thesis .
qed

lemma concat_if_product:
  "concat (map (\<lambda>i. concat (map (\<lambda>j. if c i j then [e i j] else []) js)) is)
     = map (\<lambda>(i, j). e i j) (filter (\<lambda>(i, j). c i j) (List.product is js))"
proof (induction "is")
  case Nil
  show ?case by simp
next
  case (Cons i "is")
  have "concat (map (\<lambda>j. if c i j then [e i j] else []) js)
      = map (\<lambda>(i, j). e i j) (filter (\<lambda>(i, j). c i j) (map (Pair i) js))"
    by (induction js) auto
  with Cons show ?case by simp
qed

lemma row_count_pair:
  assumes "\<forall>r\<in>set rs. row_ok nm n r"
  shows "(\<Sum>r\<leftarrow>rs. row_count (\<lambda>i' j'. i' = i \<and> j' = j) nm r)
     = length (filter (\<lambda>r. nm (salaryBin r) = Some i \<and> nm (experienceLevel r) = Some j) rs)
     + length (filter (\<lambda>r. nm (experienceLevel r) = Some i \<and> nm (workType r) = Some j) rs)"
  using assms
proof (induction rs)
  case Nil
  show ?case by simp
next
  case (Cons r rs)
  from Cons.prems obtain a b c where
    "nm (salaryBin r) = Some a" "nm (experienceLevel r) = Some b" "nm (workType r) = Some c"
    by (auto simp: row_ok_def)
  moreover have "\<forall>r\<in>set rs. row_ok nm n r" using Cons.prems by simp
  ultimately show ?case
    using Cons.IH by (simp add: row_count_def idx_def)
qed

lemma graph_matrix:
  "\<exists>m. forEach_links (nodeMap data) (linkMatrix0 (length (nodes data))) data = Some m
      \<and> square m (length (nodes data))
      \<and> (\<forall>P. msum P m (length (nodes data)) = (\<Sum>r\<leftarrow>data. row_count P (nodeMap data) r))"
  using forEach_links_ok [OF square_linkMatrix0, of data "nodeMap data" "length (nodes data)"] rows_ok
  by (simp add: msum_zero)

lemma graph_links:
  "\<exists>ls. displaySankey_graph data = Some (nodes data, ls)
      \<and> (\<forall>P. sum_list (map link_value (filter (\<lambda>l. P (source l) (target l)) ls))
               = (\<Sum>r\<leftarrow>data. row_count P (nodeMap data) r))
      \<and> ls = map (\<lambda>(i, j). \<lparr>source = i, target = j, link_value = pair_count data i j\<rparr>)
                 (filter (\<lambda>(i, j). pair_count data i j > 0)
                    (List.product [0..<length (nodes data)] [0..<length (nodes data)]))"
proof -
  let ?n = "length (nodes data)"
  obtain m where m: "forEach_links (nodeMap data) (linkMatrix0 ?n) data = Some m"
      "square m ?n" "\<forall>P. msum P m ?n = (\<Sum>r\<leftarrow>data. row_count P (nodeMap data) r)"
    using graph_matrix by blast
  have entry: "m ! i ! j = pair_count data i j" if "i < ?n" "j < ?n" for i j
  proof -
    have "m ! i ! j = msum (\<lambda>i' j'. i' = i \<and> j' = j) m ?n"
      using that by (simp add: msum_single)
    also have "\<dots> = (\<Sum>r\<leftarrow>data. row_count (\<lambda>i' j'. i' = i \<and> j' = j) (nodeMap data) r)"
      using m(3) by simp
    also have "\<dots> = pair_count data i j"
      unfolding pair_count_def
      by (rule row_count_pair [where n = ?n]) (simp add: rows_ok)
    finally show ?thesis .
  qed
  have "links_of m ?n = map (\<lambda>(i, j). \<lparr>source = i, target = j, link_value = m ! i ! j\<rparr>)
                 (filter (\<lambda>(i, j). m ! i ! j > 0) (List.product [0..<?n] [0..<?n]))"
    unfolding links_of_def by (rule concat_if_product)
  also have "\<dots> = map (\<lambda>(i, j). \<lparr>source = i, target = j, link_value = pair_count data i j\<rparr>)
                 (filter (\<lambda>(i, j). m ! i ! j > 0) (List.product [0..<?n] [0..<?n]))"
    by (rule map_cong) (auto simp: entry)
  also have "filter (\<lambda>(i, j). m ! i ! j > 0) (List.product [0..<?n] [0..<?n])
           = filter (\<lambda>(i, j). pair_count data i j > 0) (List.product [0..<?n] [0..<?n])"
    by (rule filter_cong) (auto simp: entry)
  finally have ls: "links_of m ?n = map (\<lambda>(i, j). \<lparr>source = i, target = j, link_value = pair_count data i j\<rparr>)
                 (filter (\<lambda>(i, j). pair_count data i j > 0) (List.product [0..<?n] [0..<?n]))" .
  have "displaySankey_graph data = Some (nodes data, links_of m ?n)"
    by (simp add: displaySankey_graph_def m(1))
  moreover have "sum_list (map link_value (filter (\<lambda>l. P (source l) (target l)) (links_of m ?n)))
               = (\<Sum>r\<leftarrow>data. row_count P (nodeMap data) r)" for P
    by (simp add: sum_links_of m(3))
  ultimately show ?thesis
    using ls by blast
qed

subsection \<open>Positions of the stages when no value is shared\<close>

lemma flow_between_rows:
  assumes "\<forall>P. sum_list (map link_value (filter (\<lambda>l. P (source l) (target l)) ls))
               = (\<Sum>r\<leftarrow>data. row_count P (nodeMap data) r)"
  shows "flow_between ls S T = (\<Sum>r\<leftarrow>data. row_count (\<lambda>i j. S i \<and> T j) (nodeMap data) r)"
  using assms [rule_format, of "\<lambda>i j. S i \<and> T j"] by (simp add: flow_between_def)

lemma distinct_nodes: "stages_disjoint data \<Longrightarrow> distinct (nodes data)"
  by (auto simp: nodes_def stages_disjoint_def distinct_uniq set_uniq)

lemma nth_three_blocks:
  assumes "k < length (xs @ ys @ zs)"
  shows "(k < length xs \<and> (xs @ ys @ zs) ! k \<in> set xs)
       \<or> (length xs \<le> k \<and> k < length xs + length ys \<and> (xs @ ys @ zs) ! k \<in> set ys)
       \<or> (length xs + length ys \<le> k \<and> (xs @ ys @ zs) ! k \<in> set zs)"
proof -
  consider "k < length xs" | "length xs \<le> k" "k < length xs + length ys" | "length xs + length ys \<le> k"
    by linarith
  then show ?thesis
  proof cases
    case 1
    then show ?thesis by (simp add: nth_append)
  next
    case 2
    then have "(xs @ ys @ zs) ! k = ys ! (k - length xs)" "k - length xs < length ys"
      by (auto simp: nth_append)
    with 2 show ?thesis by simp
  next
    case 3
    then have "(xs @ ys @ zs) ! k = zs ! (k - length xs - length ys)" "k - length xs - length ys < length zs"
      using assms by (auto simp: nth_append)
    with 3 show ?thesis by simp
  qed
qed

lemma stage_positions:
  assumes dj: "stages_disjoint data" and r: "r \<in> set data"
  shows "\<exists>a b c. nodeMap data (salaryBin r) = Some a \<and> a < stage1 data
             \<and> nodeMap data (experienceLevel r) = Some b
             \<and> stage1 data \<le> b \<and> b < stage1 data + stage2 data
             \<and> nodeMap data (workType r) = Some c
             \<and> stage1 data + stage2 data \<le> c \<and> c < length (nodes data)"
proof -
  let ?s1 = "uniq (map salaryBin data)" and ?s2 = "uniq (map experienceLevel data)"
    and ?s3 = "uniq (map workType data)"
  have ns: "nodes data = ?s1 @ ?s2 @ ?s3" by (simp add: nodes_def)
  have sets: "set ?s1 = salaryBin ` set data" "set ?s2 = experienceLevel ` set data"
    "set ?s3 = workType ` set data"
    by (simp_all add: set_uniq)
  have d: "distinct (nodes data)" using dj by (rule distinct_nodes)
  from rows_ok [OF r] obtain a b c where abc:
    "a < length (nodes data)" "nodeMap data (salaryBin r) = Some a"
    "b < length (nodes data)" "nodeMap data (experienceLevel r) = Some b"
    "c < length (nodes data)" "nodeMap data (workType r) = Some c"
    by (auto simp: row_ok_def)
  have na: "nodes data ! a = salaryBin r" and nb: "nodes data ! b = experienceLevel r"
    and nc: "nodes data ! c = workType r"
    using abc d by (simp_all add: nodeMap_index_map index_map_distinct)
  have "a < stage1 data"
    using nth_three_blocks [of a ?s1 ?s2 ?s3] abc(1) na r dj
    unfolding ns [symmetric] sets stage1_def stages_disjoint_def by auto
  moreover have "stage1 data \<le> b \<and> b < stage1 data + stage2 data"
    using nth_three_blocks [of b ?s1 ?s2 ?s3] abc(3) nb r dj
    unfolding ns [symmetric] sets stage1_def stage2_def stages_disjoint_def by auto
  moreover have "stage1 data + stage2 data \<le> c"
    using nth_three_blocks [of c ?s1 ?s2 ?s3] abc(5) nc r dj
    unfolding ns [symmetric] sets stage1_def stage2_def stages_disjoint_def by auto
  ultimately show ?thesis
    using abc by simp
qed

lemma sum_list_rows_cong:
  "(\<And>r. r \<in> set rs \<Longrightarrow> f r = g r) \<Longrightarrow> (\<Sum>r\<leftarrow>rs. f r) = (\<Sum>r\<leftarrow>rs. (g r :: nat))"
  by (induction rs) auto

lemma sum_list_ones: "(\<Sum>r\<leftarrow>rs. (1::nat)) = length rs"
  by (induction rs) auto

text \<open>
  C3 (as amended). The node sequence of \<^verbatim>\<open>displaySankey\<close> lists the distinct salary bins
  in first-seen order, then the distinct experience levels, then the distinct work types,
  so a string that occurs under two fields is listed once for each. The links, however,
  find a node by its value alone: \<open>nodeMap\<close> sends a value to its last position in the
  node sequence, whatever field the value came from. When no string is shared between
  two fields the positions are distinct, and the value of each field of each row has its
  index inside the block of that field.
\<close>

theorem sankey_nodes_by_value:
  "nodes data = first_seen (map salaryBin data) @ first_seen (map experienceLevel data)
                  @ first_seen (map workType data)
   \<and> (\<forall>v k. nodeMap data v = Some k \<longleftrightarrow>
          k < length (nodes data) \<and> nodes data ! k = v
        \<and> (\<forall>j. k < j \<and> j < length (nodes data) \<longrightarrow> nodes data ! j \<noteq> v))
   \<and> (stages_disjoint data \<longrightarrow>
          distinct (nodes data)
        \<and> (\<forall>r\<in>set data. \<exists>a b c.
               nodeMap data (salaryBin r) = Some a \<and> a < stage1 data
             \<and> nodeMap data (experienceLevel r) = Some b
             \<and> stage1 data \<le> b \<and> b < stage1 data + stage2 data
             \<and> nodeMap data (workType r) = Some c
             \<and> stage1 data + stage2 data \<le> c \<and> c < length (nodes data)))"
proof -
  have "nodes data = first_seen (map salaryBin data) @ first_seen (map experienceLevel data)
                  @ first_seen (map workType data)"
    by (simp add: nodes_def uniq_first_seen)
  moreover have "\<forall>v k. nodeMap data v = Some k \<longleftrightarrow>
          k < length (nodes data) \<and> nodes data ! k = v
        \<and> (\<forall>j. k < j \<and> j < length (nodes data) \<longrightarrow> nodes data ! j \<noteq> v)"
    unfolding nodeMap_index_map by (intro allI index_map_last)
  moreover have "distinct (nodes data)" if "stages_disjoint data"
    using that by (rule distinct_nodes)
  moreover have "\<forall>r\<in>set data. \<exists>a b c.
               nodeMap data (salaryBin r) = Some a \<and> a < stage1 data
             \<and> nodeMap data (experienceLevel r) = Some b
             \<and> stage1 data \<le> b \<and> b < stage1 data + stage2 data
             \<and> nodeMap data (workType r) = Some c
             \<and> stage1 data + stage2 data \<le> c \<and> c < length (nodes data)" if "stages_disjoint data"
    using stage_positions [OF that] by blast
  ultimately show ?thesis by blast
qed

theorem sankey_nodes_by_value_witness:
  "stages_disjoint [\<lparr>salaryBin = ''< 50k'', experienceLevel = ''Senior'', workType = ''remote''\<rparr>,
                    \<lparr>salaryBin = ''< 50k'', experienceLevel = ''Mid Level'', workType = ''remote''\<rparr>]
   \<and> distinct (nodes [\<lparr>salaryBin = ''< 50k'', experienceLevel = ''Senior'', workType = ''remote''\<rparr>,
                      \<lparr>salaryBin = ''< 50k'', experienceLevel = ''Mid Level'', workType = ''remote''\<rparr>])
   \<and> nodes [\<lparr>salaryBin = ''< 50k'', experienceLevel = ''Senior'', workType = ''remote''\<rparr>,
            \<lparr>salaryBin = ''< 50k'', experienceLevel = ''Mid Level'', workType = ''remote''\<rparr>]
       = [''< 50k'', ''Senior'', ''Mid Level'', ''remote'']"
proof -
  let ?d = "[\<lparr>salaryBin = ''< 50k'', experienceLevel = ''Senior'', workType = ''remote''\<rparr>,
             \<lparr>salaryBin = ''< 50k'', experienceLevel = ''Mid Level'', workType = ''remote''\<rparr>]"
  have h: "stages_disjoint ?d" by code_simp
  have n: "nodes ?d = [''< 50k'', ''Senior'', ''Mid Level'', ''remote'']" by code_simp
  from sankey_nodes_by_value [of ?d] h have "distinct (nodes ?d)" by blast
  with h n show ?thesis by blast
qed

text \<open>
  The claim as stated fails when a string is the value of two fields: in the row
  \<open>(x, x, y)\<close> the salary bin \<open>x\<close> is node 0 and the experience level \<open>x\<close> is node 1, but
  \<open>nodeMap\<close> sends \<open>x\<close> to 1 for both, so the link from the salary bin to the experience
  level is the loop from node 1 to node 1.
\<close>

theorem sankey_shared_value_counterexample:
  "displaySankey_graph [\<lparr>salaryBin = ''x'', experienceLevel = ''x'', workType = ''y''\<rparr>]
     = Some ([''x'', ''x'', ''y''],
             [\<lparr>source = 1, target = 1, link_value = 1\<rparr>, \<lparr>source = 1, target = 2, link_value = 1\<rparr>])
   \<and> nodeMap [\<lparr>salaryBin = ''x'', experienceLevel = ''x'', workType = ''y''\<rparr>] ''x'' = Some 1"
  by code_simp

text \<open>
  C4 (as amended). For every input the value of a link is the number of rows counted for
  its pair of nodes (each row adds one, nothing is overwritten), and the links are exactly
  the pairs with a positive count, each once, in row-major order. Provided no string is
  the value of two different fields, the values of the links between the salary-bin nodes
  and the experience-level nodes sum to the number of rows, and so do the values of the
  links between the experience-level nodes and the work-type nodes.
\<close>

theorem sankey_conservation:
  "\<exists>ls. displaySankey_graph data = Some (nodes data, ls)
     \<and> ls = map (\<lambda>(i, j). \<lparr>source = i, target = j, link_value = pair_count data i j\<rparr>)
                (filter (\<lambda>(i, j). pair_count data i j > 0)
                   (List.product [0..<length (nodes data)] [0..<length (nodes data)]))
     \<and> (stages_disjoint data \<longrightarrow>
           flow_1_to_2 data ls = length data \<and> flow_2_to_3 data ls = length data)"
proof -
  obtain ls where ls: "displaySankey_graph data = Some (nodes data, ls)"
    "\<forall>P. sum_list (map link_value (filter (\<lambda>l. P (source l) (target l)) ls))
               = (\<Sum>r\<leftarrow>data. row_count P (nodeMap data) r)"
    "ls = map (\<lambda>(i, j). \<lparr>source = i, target = j, link_value = pair_count data i j\<rparr>)
                (filter (\<lambda>(i, j). pair_count data i j > 0)
                   (List.product [0..<length (nodes data)] [0..<length (nodes data)]))"
    using graph_links [of data] by blast
  have "flow_1_to_2 data ls = length data \<and> flow_2_to_3 data ls = length data"
    if dj: "stages_disjoint data"
  proof -
    have 1: "row_count (\<lambda>i j. i < stage1 data \<and> stage1 data \<le> j \<and> j < stage1 data + stage2 data)
               (nodeMap data) r = 1" if "r \<in> set data" for r
      using stage_positions [OF dj that] by (auto simp: row_count_def idx_def)
    have 2: "row_count (\<lambda>i j. (stage1 data \<le> i \<and> i < stage1 data + stage2 data)
                   \<and> stage1 data + stage2 data \<le> j \<and> j < length (nodes data))
               (nodeMap data) r = 1" if "r \<in> set data" for r
      using stage_positions [OF dj that] by (auto simp: row_count_def idx_def)
    have "flow_1_to_2 data ls = (\<Sum>r\<leftarrow>data. 1)"
      unfolding flow_1_to_2_def flow_between_rows [OF ls(2)] by (rule sum_list_rows_cong) (rule 1)
    moreover have "flow_2_to_3 data ls = (\<Sum>r\<leftarrow>data. 1)"
      unfolding flow_2_to_3_def flow_between_rows [OF ls(2)] by (rule sum_list_rows_cong) (rule 2)
    ultimately show ?thesis
      unfolding sum_list_ones by simp
  qed
  with ls(1,3) show ?thesis by blast
qed

theorem sankey_conservation_witness:
  "stages_disjoint [\<lparr>salaryBin = ''< 50k'', experienceLevel = ''Senior'', workType = ''remote''\<rparr>,
                    \<lparr>salaryBin = ''200k+'', experienceLevel = ''Senior'', workType = ''hybrid''\<rparr>]
   \<and> (\<exists>ls. displaySankey_graph [\<lparr>salaryBin = ''< 50k'', experienceLevel = ''Senior'', workType = ''remote''\<rparr>,
                    \<lparr>salaryBin = ''200k+'', experienceLevel = ''Senior'', workType = ''hybrid''\<rparr>]
              = Some ([''< 50k'', ''200k+'', ''Senior'', ''remote'', ''hybrid''], ls)
          \<and> flow_1_to_2 [\<lparr>salaryBin = ''< 50k'', experienceLevel = ''Senior'', workType = ''remote''\<rparr>,
                    \<lparr>salaryBin = ''200k+'', experienceLevel = ''Senior'', workType = ''hybrid''\<rparr>] ls = 2
          \<and> flow_2_to_3 [\<lparr>salaryBin = ''< 50k'', experienceLevel = ''Senior'', workType = ''remote''\<rparr>,
                    \<lparr>salaryBin = ''200k+'', experienceLevel = ''Senior'', workType = ''hybrid''\<rparr>] ls = 2)"
proof -
  let ?d = "[\<lparr>salaryBin = ''< 50k'', experienceLevel = ''Senior'', workType = ''remote''\<rparr>,
             \<lparr>salaryBin = ''200k+'', experienceLevel = ''Senior'', workType = ''hybrid''\<rparr>]"
  have h: "stages_disjoint ?d" by code_simp
  have n: "nodes ?d = [''< 50k'', ''200k+'', ''Senior'', ''remote'', ''hybrid'']" by code_simp
  from sankey_conservation [of ?d] obtain ls where
    g: "displaySankey_graph ?d = Some (nodes ?d, ls)"
    and f: "stages_disjoint ?d \<longrightarrow> flow_1_to_2 ?d ls = length ?d \<and> flow_2_to_3 ?d ls = length ?d"
    by blast
  from f h have "flow_1_to_2 ?d ls = length ?d \<and> flow_2_to_3 ?d ls = length ?d" by (rule mp)
  with g have "displaySankey_graph ?d = Some ([''< 50k'', ''200k+'', ''Senior'', ''remote'', ''hybrid''], ls)
      \<and> flow_1_to_2 ?d ls = 2 \<and> flow_2_to_3 ?d ls = 2"
    by (simp add: n)
  with h show ?thesis by blast
qed

text \<open>
  The claim as stated fails when a string is shared: for the single row \<open>(x, x, x)\<close> the
  only link is the loop at node 2 with value 2, so no link joins a salary-bin node to an
  experience-level node and the sum for that pair is 0, not 1.
\<close>

theorem sankey_conservation_counterexample:
  "displaySankey_graph [\<lparr>salaryBin = ''x'', experienceLevel = ''x'', workType = ''x''\<rparr>]
     = Some ([''x'', ''x'', ''x''], [\<lparr>source = 2, target = 2, link_value = 2\<rparr>])
   \<and> flow_1_to_2 [\<lparr>salaryBin = ''x'', experienceLevel = ''x'', workType = ''x''\<rparr>]
        [\<lparr>source = 2, target = 2, link_value = 2\<rparr>] = 0
   \<and> length [\<lparr>salaryBin = ''x'', experienceLevel = ''x'', workType = ''x''\<rparr>] = 1"
  by code_simp

text \<open>
  C10. In the three-stage graph, provided no string is the value of two different fields,
  every experience-level node is balanced: the values of the links that enter it from
  salary-bin nodes and the values of the links that leave it for work-type nodes both sum
  to the number of rows whose experience level is the label of that node.
\<close>

theorem sankey_middle_balance:
  assumes dj: "stages_disjoint data"
    and k: "stage1 data \<le> k" "k < stage1 data + stage2 data"
  shows "\<exists>ls. displaySankey_graph data = Some (nodes data, ls)
     \<and> flow_into data ls k = length (filter (\<lambda>r. experienceLevel r = nodes data ! k) data)
     \<and> flow_out_of data ls k = length (filter (\<lambda>r. experienceLevel r = nodes data ! k) data)"
proof -
  obtain ls where ls: "displaySankey_graph data = Some (nodes data, ls)"
    "\<forall>P. sum_list (map link_value (filter (\<lambda>l. P (source l) (target l)) ls))
               = (\<Sum>r\<leftarrow>data. row_count P (nodeMap data) r)"
    using graph_links [of data] by blast
  have kn: "k < length (nodes data)"
    using k(2) by (simp add: nodes_def stage1_def stage2_def)
  have mid: "nodeMap data v = Some k \<longleftrightarrow> v = nodes data ! k" for v
    using distinct_nodes [OF dj] kn by (auto simp: nodeMap_index_map index_map_distinct)
  have 1: "row_count (\<lambda>i j. i < stage1 data \<and> j = k) (nodeMap data) r
             = (if experienceLevel r = nodes data ! k then 1 else 0)" if "r \<in> set data" for r
    using stage_positions [OF dj that] k mid [of "experienceLevel r"]
    by (auto simp: row_count_def idx_def)
  have 2: "row_count (\<lambda>i j. i = k \<and> stage1 data + stage2 data \<le> j \<and> j < length (nodes data))
             (nodeMap data) r
             = (if experienceLevel r = nodes data ! k then 1 else 0)" if "r \<in> set data" for r
    using stage_positions [OF dj that] k mid [of "experienceLevel r"]
    by (auto simp: row_count_def idx_def)
  have "flow_into data ls k = length (filter (\<lambda>r. experienceLevel r = nodes data ! k) data)"
    unfolding flow_into_def flow_between_rows [OF ls(2)] sum_list_indicator [symmetric]
    by (rule sum_list_rows_cong) (rule 1)
  moreover have "flow_out_of data ls k = length (filter (\<lambda>r. experienceLevel r = nodes data ! k) data)"
    unfolding flow_out_of_def flow_between_rows [OF ls(2)] sum_list_indicator [symmetric]
    by (rule sum_list_rows_cong) (rule 2)
  ultimately show ?thesis
    using ls(1) by blast
qed

theorem sankey_middle_balance_witness:
  "stages_disjoint [\<lparr>salaryBin = ''< 50k'', experienceLevel = ''Senior'', workType = ''remote''\<rparr>,
                    \<lparr>salaryBin = ''200k+'', experienceLevel = ''Senior'', workType = ''hybrid''\<rparr>]
   \<and> stage1 [\<lparr>salaryBin = ''< 50k'', experienceLevel = ''Senior'', workType = ''remote''\<rparr>,
             \<lparr>salaryBin = ''200k+'', experienceLevel = ''Senior'', workType = ''hybrid''\<rparr>] \<le> 2
   \<and> 2 < stage1 [\<lparr>salaryBin = ''< 50k'', experienceLevel = ''Senior'', workType = ''remote''\<rparr>,
                 \<lparr>salaryBin = ''200k+'', experienceLevel = ''Senior'', workType = ''hybrid''\<rparr>]
         + stage2 [\<lparr>salaryBin = ''< 50k'', experienceLevel = ''Senior'', workType = ''remote''\<rparr>,
                   \<lparr>salaryBin = ''200k+'', experienceLevel = ''Senior'', workType = ''hybrid''\<rparr>]
   \<and> (\<exists>ls. displaySankey_graph [\<lparr>salaryBin = ''< 50k'', experienceLevel = ''Senior'', workType = ''remote''\<rparr>,
                    \<lparr>salaryBin = ''200k+'', experienceLevel = ''Senior'', workType = ''hybrid''\<rparr>]
              = Some ([''< 50k'', ''200k+'', ''Senior'', ''remote'', ''hybrid''], ls)
          \<and> flow_into [\<lparr>salaryBin = ''< 50k'', experienceLevel = ''Senior'', workType = ''remote''\<rparr>,
                    \<lparr>salaryBin = ''200k+'', experienceLevel = ''Senior'', workType = ''hybrid''\<rparr>] ls 2 = 2
          \<and> flow_out_of [\<lparr>salaryBin = ''< 50k'', experienceLevel = ''Senior'', workType = ''remote''\<rparr>,
                    \<lparr>salaryBin = ''200k+'', experienceLevel = ''Senior'', workType = ''hybrid''\<rparr>] ls 2 = 2)"
proof -
  let ?d = "[\<lparr>salaryBin = ''< 50k'', experienceLevel = ''Senior'', workType = ''remote''\<rparr>,
             \<lparr>salaryBin = ''200k+'', experienceLevel = ''Senior'', workType = ''hybrid''\<rparr>]"
  have h: "stages_disjoint ?d" by code_simp
  have k1: "stage1 ?d \<le> 2" by code_simp
  have k2: "2 < stage1 ?d + stage2 ?d" by code_simp
  have n: "nodes ?d = [''< 50k'', ''200k+'', ''Senior'', ''remote'', ''hybrid'']" by code_simp
  have c: "length (filter (\<lambda>r. experienceLevel r = nodes ?d ! 2) ?d) = 2" by code_simp
  from sankey_middle_balance [OF h k1 k2] obtain ls where
    "displaySankey_graph ?d = Some (nodes ?d, ls)"
    "flow_into ?d ls 2 = length (filter (\<lambda>r. experienceLevel r = nodes ?d ! 2) ?d)"
    "flow_out_of ?d ls 2 = length (filter (\<lambda>r. experienceLevel r = nodes ?d ! 2) ?d)"
    by blast
  then have "displaySankey_graph ?d = Some ([''< 50k'', ''200k+'', ''Senior'', ''remote'', ''hybrid''], ls)
      \<and> flow_into ?d ls 2 = 2 \<and> flow_out_of ?d ls 2 = 2"
    unfolding c n by simp
  with h k1 k2 show ?thesis by blast
qed

section \<open>Properties of the stacked-bar aggregation\<close>

subsection \<open>Sorting and grouping\<close>

lemma set_insert_by: "set (insert_by cmp x ys) = insert x (set ys)"
  by (induction ys) auto

lemma distinct_insert_by: "distinct (insert_by cmp x ys) \<longleftrightarrow> x \<notin> set ys \<and> distinct ys"
  by (induction ys) (auto simp: set_insert_by)

lemma set_array_sort: "set (array_sort cmp xs) = set xs"
  by (induction xs) (auto simp: array_sort_def set_insert_by)

lemma distinct_array_sort: "distinct (array_sort cmp xs) \<longleftrightarrow> distinct xs"
  by (induction xs) (auto simp: array_sort_def distinct_insert_by set_array_sort [unfolded array_sort_def])

lemma insert_by_insort_key:
  "insert_by (\<lambda>a b. int (f b) - int (f a)) x ys = insort_key (\<lambda>a. - int (f a)) x ys"
  by (induction ys) auto

lemma array_sort_sort_key:
  "array_sort (\<lambda>a b. int (f b) - int (f a)) xs = sort_key (\<lambda>a. - int (f a)) xs"
  by (induction xs) (simp_all add: array_sort_def sort_key_def insert_by_insort_key)

lemma array_sort_descending:
  "sorted_wrt (\<lambda>a b. f b \<le> f a) (array_sort (\<lambda>a b. int (f b) - int (f a)) xs)"
proof -
  have "sorted (map (\<lambda>a. - int (f a)) (sort_key (\<lambda>a. - int (f a)) xs))"
    by (rule sorted_sort_key)
  then show ?thesis
    by (simp add: array_sort_sort_key sorted_map sorted_wrt_iff_nth_less)
qed

lemma array_sort_stable:
  "filter (\<lambda>a. f a = n) (array_sort (\<lambda>a b. int (f b) - int (f a)) xs) = filter (\<lambda>a. f a = n) xs"
proof -
  have "filter (\<lambda>a. - int (f a) = - int n) (sort_key (\<lambda>a. - int (f a)) xs)
      = filter (\<lambda>a. - int (f a) = - int n) xs"
    by (rule sort_key_stable)
  then show ?thesis
    by (simp add: array_sort_sort_key)
qed

lemma groups_of_snoc:
  "group_push keyof (groups_of keyof xs) x = groups_of keyof (xs @ [x])"
proof (cases "keyof x \<in> keyof ` set xs")
  case True
  then have u: "uniq (map keyof xs @ [keyof x]) = uniq (map keyof xs)"
    by (simp add: uniq_snoc set_add_def set_uniq)
  have in_groups: "keyof x \<in> fst ` set (groups_of keyof xs)"
    using True by (force simp: groups_of_def set_uniq)
  show ?thesis
    using in_groups by (auto simp: group_push_def u groups_of_def)
next
  case False
  then have u: "uniq (map keyof xs @ [keyof x]) = uniq (map keyof xs) @ [keyof x]"
    by (simp add: uniq_snoc set_add_def set_uniq)
  have not_in: "keyof x \<notin> fst ` set (groups_of keyof xs)"
    using False by (force simp: groups_of_def set_uniq)
  have e: "filter (\<lambda>y. keyof y = keyof x) xs = []"
    using False by (force simp: filter_empty_conv image_iff)
  have old: "map (\<lambda>k. (k, filter (\<lambda>y. keyof y = k) (xs @ [x]))) (uniq (map keyof xs))
     = map (\<lambda>k. (k, filter (\<lambda>y. keyof y = k) xs)) (uniq (map keyof xs))"
    using False by (intro map_cong refl) (auto simp: set_uniq)
  have "groups_of keyof (xs @ [x])
      = map (\<lambda>k. (k, filter (\<lambda>y. keyof y = k) (xs @ [x]))) (uniq (map keyof xs))
        @ [(keyof x, filter (\<lambda>y. keyof y = keyof x) (xs @ [x]))]"
    by (simp add: groups_of_def u)
  also have "\<dots> = groups_of keyof xs @ [(keyof x, [x])]"
    unfolding old by (simp add: e groups_of_def)
  finally show ?thesis
    using not_in by (simp add: group_push_def)
qed

lemma foldl_group_push: "foldl (group_push keyof) [] xs = groups_of keyof xs"
proof (induction xs rule: rev_induct)
  case Nil
  show ?case by (simp add: groups_of_def uniq_def)
next
  case (snoc x xs)
  then show ?case by (simp add: groups_of_snoc)
qed

lemma d3_rollup_eq:
  "d3_rollup xs reduce keyof
     = map (\<lambda>k. (k, reduce (filter (\<lambda>x. keyof x = k) xs))) (uniq (map keyof xs))"
  by (simp add: d3_rollup_def foldl_group_push groups_of_def comp_def)

subsection \<open>The counts of a group\<close>

lemma fromEntries_zero:
  "fromEntries (map (\<lambda>t. (t, 0::nat)) sts) = (\<lambda>t. if t \<in> set sts then Some 0 else None)"
  by (induction sts rule: rev_induct) (auto simp: fromEntries_snoc fromEntries_def)

lemma foldl_leaf_step:
  "foldl leaf_step ((\<lambda>t. if t \<in> S then Some (c0 t) else None), ws) leaves
     = ((\<lambda>t. if t \<in> S then Some (c0 t + length (filter (\<lambda>l. Type_2 l = t) leaves)) else None),
        ws @ map (\<lambda>l. UnexpectedSecondaryType (Type_2 l) (Type_1 l)) (filter (\<lambda>l. Type_2 l \<notin> S) leaves))"
proof (induction leaves arbitrary: c0 ws)
  case Nil
  show ?case by (simp cong: if_cong)
next
  case (Cons l ls)
  show ?case
  proof (cases "Type_2 l \<in> S")
    case True
    have "leaf_step ((\<lambda>t. if t \<in> S then Some (c0 t) else None), ws) l
        = ((\<lambda>t. if t \<in> S then Some ((c0(Type_2 l := c0 (Type_2 l) + 1)) t) else None), ws)"
      using True by (auto simp: leaf_step_def)
    then show ?thesis
      using True by (simp add: Cons.IH) (rule ext, simp)
  next
    case False
    have "leaf_step ((\<lambda>t. if t \<in> S then Some (c0 t) else None), ws) l
        = ((\<lambda>t. if t \<in> S then Some (c0 t) else None),
           ws @ [UnexpectedSecondaryType (Type_2 l) (Type_1 l)])"
      using False by (simp add: leaf_step_def)
    then show ?thesis
      using False by (simp add: Cons.IH) (rule ext, auto)
  qed
qed

lemma leaves_counts_eq:
  "leaves_counts sts leaves
     = ((\<lambda>t. if t \<in> set sts then Some (length (filter (\<lambda>l. Type_2 l = t) leaves)) else None)
          (''total'' \<mapsto> length leaves),
        map (\<lambda>l. UnexpectedSecondaryType (Type_2 l) (Type_1 l)) (filter (\<lambda>l. Type_2 l \<notin> set sts) leaves))"
  using foldl_leaf_step [of "set sts" "\<lambda>t. 0" "[]" leaves]
  by (simp add: leaves_counts_def fromEntries_zero Let_def cong: if_cong)

lemma set_secondaryTypes: "set (secondaryTypes lc data) = Type_2 ` set data"
  by (simp add: secondaryTypes_def set_array_sort set_uniq)

lemma distinct_secondaryTypes: "distinct (secondaryTypes lc data)"
  by (simp add: secondaryTypes_def distinct_array_sort distinct_uniq)

lemma rollupByType_eq:
  "rollupByType lc data
     = map (\<lambda>k. (k, (\<lambda>t. if t \<in> Type_2 ` set data then Some (sub_count data k t) else None)
                       (''total'' \<mapsto> group_size data k), []))
         (uniq (map Type_1 data))"
proof -
  have "leaves_counts (secondaryTypes lc data) (filter (\<lambda>d. Type_1 d = k) data)
     = ((\<lambda>t. if t \<in> Type_2 ` set data then Some (sub_count data k t) else None)
          (''total'' \<mapsto> group_size data k), [])" for k
  proof -
    have "filter (\<lambda>l. Type_2 l \<notin> Type_2 ` set data) (filter (\<lambda>d. Type_1 d = k) data) = []"
      by (auto simp: filter_empty_conv)
    moreover have "length (filter (\<lambda>l. Type_2 l = t) (filter (\<lambda>d. Type_1 d = k) data)) = sub_count data k t" for t
      by (simp add: sub_count_def conj_commute)
    ultimately show ?thesis
      by (simp add: leaves_counts_eq set_secondaryTypes group_size_def cong: if_cong)
  qed
  then show ?thesis
    by (simp add: rollupByType_def d3_rollup_eq)
qed

lemma countsByType_eq:
  "countsByType lc data
     = map (\<lambda>k. (k, (\<lambda>t. if t \<in> Type_2 ` set data then Some (sub_count data k t) else None)
                       (''total'' \<mapsto> group_size data k)))
         (uniq (map Type_1 data))"
  by (simp add: countsByType_def rollupByType_eq comp_def)

lemma countsByType_warnings_eq: "countsByType_warnings lc data = []"
  by (simp add: countsByType_warnings_def rollupByType_eq comp_def)

lemma length_filter_disj:
  "(\<forall>x\<in>set xs. \<not> (P x \<and> Q x)) \<Longrightarrow>
     length (filter P xs) + length (filter Q xs) = length (filter (\<lambda>x. P x \<or> Q x) xs)"
  by (induction xs) auto

lemma sum_list_class_sizes:
  "distinct ks \<Longrightarrow>
     (\<Sum>k\<leftarrow>ks. length (filter (\<lambda>x. f x = k) xs)) = length (filter (\<lambda>x. f x \<in> set ks) xs)"
proof (induction ks)
  case Nil
  show ?case by simp
next
  case (Cons k ks)
  have "length (filter (\<lambda>x. f x = k) xs) + length (filter (\<lambda>x. f x \<in> set ks) xs)
      = length (filter (\<lambda>x. f x = k \<or> f x \<in> set ks) xs)"
    using Cons.prems by (intro length_filter_disj) auto
  with Cons show ?case by simp
qed

lemma sum_group_sizes: "(\<Sum>k\<leftarrow>uniq (map Type_1 data). group_size data k) = length data"
  using sum_list_class_sizes [where ks = "uniq (map Type_1 data)" and f = Type_1 and xs = data]
  by (simp add: group_size_def set_uniq distinct_uniq)

lemma sum_sub_counts:
  "(\<Sum>t\<leftarrow>secondaryTypes lc data. sub_count data k t) = group_size data k"
proof -
  have "(\<Sum>t\<leftarrow>secondaryTypes lc data. length (filter (\<lambda>x. Type_2 x = t) (filter (\<lambda>d. Type_1 d = k) data)))
      = length (filter (\<lambda>x. Type_2 x \<in> set (secondaryTypes lc data)) (filter (\<lambda>d. Type_1 d = k) data))"
    by (rule sum_list_class_sizes) (rule distinct_secondaryTypes)
  moreover have "filter (\<lambda>x. Type_2 x \<in> set (secondaryTypes lc data)) (filter (\<lambda>d. Type_1 d = k) data)
      = filter (\<lambda>d. Type_1 d = k) data"
    unfolding set_secondaryTypes filter_filter by (rule filter_cong) auto
  ultimately show ?thesis
    by (simp add: sub_count_def group_size_def conj_commute)
qed

text \<open>
  C5 (as amended). In every entry of \<open>countsByType\<close> the property \<open>total\<close> is the sum of the
  counts under the secondary types, provided no record has the secondary type \<open>total\<close>
  (the total is stored in the counts object itself, under that key). For every input the
  totals of the groups sum to the number of records minus the number of records dropped
  with a warning, and no record is ever dropped, since the secondary domain is derived
  from the records themselves.
\<close>

theorem groupAndCount_totals:
  "(''total'' \<notin> Type_2 ` set data \<longrightarrow>
      (\<forall>e\<in>set (countsByType lc data).
         \<exists>ns. map (snd e) (secondaryTypes lc data) = map Some ns \<and> snd e ''total'' = Some (sum_list ns)))
   \<and> (\<Sum>e\<leftarrow>countsByType lc data. total_of (snd e)) = length data - length (countsByType_warnings lc data)
   \<and> countsByType_warnings lc data = []"
proof (intro conjI impI ballI)
  fix e
  assume nt: "''total'' \<notin> Type_2 ` set data" and e: "e \<in> set (countsByType lc data)"
  from e obtain k where ek: "e = (k, (\<lambda>t. if t \<in> Type_2 ` set data then Some (sub_count data k t) else None)
                       (''total'' \<mapsto> group_size data k))"
    by (auto simp: countsByType_eq)
  have ne: "t \<noteq> ''total''" if "t \<in> set (secondaryTypes lc data)" for t
    using that nt unfolding set_secondaryTypes by blast
  have "map (snd e) (secondaryTypes lc data) = map Some (map (sub_count data k) (secondaryTypes lc data))"
    unfolding map_map
  proof (intro map_cong refl)
    fix t assume t: "t \<in> set (secondaryTypes lc data)"
    then have "t \<in> Type_2 ` set data" by (simp add: set_secondaryTypes)
    with ne [OF t] show "snd e t = (Some \<circ> sub_count data k) t"
      by (simp add: ek)
  qed
  moreover have "snd e ''total'' = Some (sum_list (map (sub_count data k) (secondaryTypes lc data)))"
    by (simp add: ek sum_sub_counts)
  ultimately show "\<exists>ns. map (snd e) (secondaryTypes lc data) = map Some ns \<and> snd e ''total'' = Some (sum_list ns)"
    by blast
next
  have "(\<Sum>e\<leftarrow>countsByType lc data. total_of (snd e)) = (\<Sum>k\<leftarrow>uniq (map Type_1 data). group_size data k)"
    by (simp add: countsByType_eq comp_def total_of_def)
  then show "(\<Sum>e\<leftarrow>countsByType lc data. total_of (snd e)) = length data - length (countsByType_warnings lc data)"
    by (simp add: sum_group_sizes countsByType_warnings_eq)
next
  show "countsByType_warnings lc data = []" by (rule countsByType_warnings_eq)
qed

theorem groupAndCount_totals_witness:
  "''total'' \<notin> Type_2 ` set [\<lparr>Type_1 = ''Fire'', Type_2 = ''None''\<rparr>, \<lparr>Type_1 = ''Fire'', Type_2 = ''Flying''\<rparr>, \<lparr>Type_1 = ''Water'', Type_2 = ''None''\<rparr>]
   \<and> map fst (countsByType (\<lambda>a b. 0) [\<lparr>Type_1 = ''Fire'', Type_2 = ''None''\<rparr>, \<lparr>Type_1 = ''Fire'', Type_2 = ''Flying''\<rparr>, \<lparr>Type_1 = ''Water'', Type_2 = ''None''\<rparr>]) = [''Fire'', ''Water'']
   \<and> (\<exists>ns. map (snd (countsByType (\<lambda>a b. 0) [\<lparr>Type_1 = ''Fire'', Type_2 = ''None''\<rparr>, \<lparr>Type_1 = ''Fire'', Type_2 = ''Flying''\<rparr>, \<lparr>Type_1 = ''Water'', Type_2 = ''None''\<rparr>] ! 0)) [''None'', ''Flying''] = map Some ns
            \<and> snd (countsByType (\<lambda>a b. 0) [\<lparr>Type_1 = ''Fire'', Type_2 = ''None''\<rparr>, \<lparr>Type_1 = ''Fire'', Type_2 = ''Flying''\<rparr>, \<lparr>Type_1 = ''Water'', Type_2 = ''None''\<rparr>] ! 0) ''total'' = Some (sum_list ns))
   \<and> (\<Sum>e\<leftarrow>countsByType (\<lambda>a b. 0) [\<lparr>Type_1 = ''Fire'', Type_2 = ''None''\<rparr>, \<lparr>Type_1 = ''Fire'', Type_2 = ''Flying''\<rparr>, \<lparr>Type_1 = ''Water'', Type_2 = ''None''\<rparr>]. total_of (snd e)) = 3"
proof -
  let ?d = "[\<lparr>Type_1 = ''Fire'', Type_2 = ''None''\<rparr>, \<lparr>Type_1 = ''Fire'', Type_2 = ''Flying''\<rparr>, \<lparr>Type_1 = ''Water'', Type_2 = ''None''\<rparr>]"
  let ?e = "countsByType (\<lambda>a b. 0) ?d ! 0"
  have h: "''total'' \<notin> Type_2 ` set ?d" by code_simp
  have k: "map fst (countsByType (\<lambda>a b. 0) ?d) = [''Fire'', ''Water'']" by code_simp
  have st: "secondaryTypes (\<lambda>a b. 0) ?d = [''None'', ''Flying'']" by code_simp
  have "length (countsByType (\<lambda>a b. 0) ?d) = 2"
    using arg_cong [OF k, of length] by simp
  then have e: "?e \<in> set (countsByType (\<lambda>a b. 0) ?d)" by simp
  note t = groupAndCount_totals [where data = ?d and lc = "\<lambda>a b. 0"]
  note t1 = t [THEN conjunct1, THEN mp, OF h, THEN bspec, OF e]
  note t2 = t [THEN conjunct2, THEN conjunct1]
  note t3 = t [THEN conjunct2, THEN conjunct2]
  have a: "\<exists>ns. map (snd ?e) [''None'', ''Flying''] = map Some ns \<and> snd ?e ''total'' = Some (sum_list ns)"
    using t1 unfolding st .
  have b: "(\<Sum>e\<leftarrow>countsByType (\<lambda>a b. 0) ?d. total_of (snd e)) = 3"
    unfolding t2 t3 by simp
  show ?thesis using h k a b by (intro conjI)
qed

text \<open>
  The claim as stated fails when a secondary type is the string \<open>total\<close>: for two Fire
  records with the secondary types \<open>total\<close> and \<open>None\<close> the counts under the secondary
  types \<open>None\<close> and \<open>total\<close> are 1 and 2, their sum is 3, and the total is 2.
\<close>

theorem groupAndCount_totals_counterexample:
  "map (\<lambda>e. (fst e,
              map (snd e) (secondaryTypes (\<lambda>a b. 0)
                 [\<lparr>Type_1 = ''Fire'', Type_2 = ''total''\<rparr>, \<lparr>Type_1 = ''Fire'', Type_2 = ''None''\<rparr>]),
              snd e ''total''))
     (countsByType (\<lambda>a b. 0)
        [\<lparr>Type_1 = ''Fire'', Type_2 = ''total''\<rparr>, \<lparr>Type_1 = ''Fire'', Type_2 = ''None''\<rparr>])
   = [(''Fire'', [Some 1, Some 2], Some 2)]"
  by code_simp

text \<open>
  C6 (as amended). The resolved secondary domain is the set of all secondary types of the
  records. Every entry of \<open>countsByType\<close> has the same own keys: that whole domain and the
  key \<open>total\<close>. Under every secondary type other than the string \<open>total\<close> the entry is the
  number of records of the group with that secondary type, an explicit 0 when the
  combination was not observed.
\<close>

theorem groupAndCount_domain:
  "set (secondaryTypes lc data) = Type_2 ` set data
   \<and> (\<forall>e\<in>set (countsByType lc data).
         dom (snd e) = set (secondaryTypes lc data) \<union> {''total''}
       \<and> (\<forall>t\<in>set (secondaryTypes lc data). t \<noteq> ''total'' \<longrightarrow>
             snd e t = Some (sub_count data (fst e) t)
           \<and> ((\<forall>d\<in>set data. \<not> (Type_1 d = fst e \<and> Type_2 d = t)) \<longrightarrow> snd e t = Some 0)))"
proof (intro conjI ballI impI)
  show "set (secondaryTypes lc data) = Type_2 ` set data" by (rule set_secondaryTypes)
next
  fix e assume e: "e \<in> set (countsByType lc data)"
  from e obtain k where ek: "e = (k, (\<lambda>t. if t \<in> Type_2 ` set data then Some (sub_count data k t) else None)
                       (''total'' \<mapsto> group_size data k))"
    by (auto simp: countsByType_eq)
  show "dom (snd e) = set (secondaryTypes lc data) \<union> {''total''}"
    by (auto simp: ek set_secondaryTypes dom_def split: if_splits)
  fix t assume t: "t \<in> set (secondaryTypes lc data)" "t \<noteq> ''total''"
  then show v: "snd e t = Some (sub_count data (fst e) t)"
    by (simp add: ek set_secondaryTypes)
  assume "\<forall>d\<in>set data. \<not> (Type_1 d = fst e \<and> Type_2 d = t)"
  then have "sub_count data (fst e) t = 0"
    by (simp add: sub_count_def filter_empty_conv)
  with v show "snd e t = Some 0" by simp
qed

theorem groupAndCount_domain_witness:
  "map fst (countsByType (\<lambda>a b. 0) [\<lparr>Type_1 = ''Fire'', Type_2 = ''None''\<rparr>, \<lparr>Type_1 = ''Fire'', Type_2 = ''Flying''\<rparr>, \<lparr>Type_1 = ''Water'', Type_2 = ''None''\<rparr>]) = [''Fire'', ''Water'']
   \<and> dom (snd (countsByType (\<lambda>a b. 0) [\<lparr>Type_1 = ''Fire'', Type_2 = ''None''\<rparr>, \<lparr>Type_1 = ''Fire'', Type_2 = ''Flying''\<rparr>, \<lparr>Type_1 = ''Water'', Type_2 = ''None''\<rparr>] ! 1)) = {''None'', ''Flying'', ''total''}
   \<and> snd (countsByType (\<lambda>a b. 0) [\<lparr>Type_1 = ''Fire'', Type_2 = ''None''\<rparr>, \<lparr>Type_1 = ''Fire'', Type_2 = ''Flying''\<rparr>, \<lparr>Type_1 = ''Water'', Type_2 = ''None''\<rparr>] ! 1) ''Flying'' = Some 0"
proof -
  let ?d = "[\<lparr>Type_1 = ''Fire'', Type_2 = ''None''\<rparr>, \<lparr>Type_1 = ''Fire'', Type_2 = ''Flying''\<rparr>, \<lparr>Type_1 = ''Water'', Type_2 = ''None''\<rparr>]"
  let ?e = "countsByType (\<lambda>a b. 0) ?d ! 1"
  have k: "map fst (countsByType (\<lambda>a b. 0) ?d) = [''Fire'', ''Water'']" by code_simp
  have st: "secondaryTypes (\<lambda>a b. 0) ?d = [''None'', ''Flying'']" by code_simp
  have "length (countsByType (\<lambda>a b. 0) ?d) = 2"
    using arg_cong [OF k, of length] by simp
  then have e: "?e \<in> set (countsByType (\<lambda>a b. 0) ?d)" by simp
  note t = groupAndCount_domain [where data = ?d and lc = "\<lambda>a b. 0", THEN conjunct2, unfolded st,
      THEN bspec, OF e]
  have fe: "fst ?e = ''Water''" by code_simp
  have unseen: "\<forall>d\<in>set ?d. \<not> (Type_1 d = fst ?e \<and> Type_2 d = ''Flying'')"
    unfolding fe by simp
  have m: "''Flying'' \<in> set [''None'', ''Flying'']" and n: "''Flying'' \<noteq> ''total''" by simp_all
  have z: "snd ?e ''Flying'' = Some 0"
    using t [THEN conjunct2, THEN bspec, OF m, THEN mp, OF n, THEN conjunct2] unseen by (rule mp)
  have s: "set [''None'', ''Flying''] \<union> {''total''} = {''None'', ''Flying'', ''total''}" by auto
  have d: "dom (snd ?e) = {''None'', ''Flying'', ''total''}"
    using t [THEN conjunct1] unfolding s .
  show ?thesis using k d z by (intro conjI)
qed

text \<open>
  The claim as stated fails when a secondary type is the string \<open>total\<close>: with a Fire
  record of secondary type \<open>total\<close> and a Water record of secondary type \<open>None\<close>, the Water
  group was never observed with \<open>total\<close>, yet its entry under that key is 1, the size of
  the group.
\<close>

theorem groupAndCount_domain_counterexample:
  "map (\<lambda>e. (fst e, snd e ''None'', snd e ''total''))
     (countsByType (\<lambda>a b. 0)
        [\<lparr>Type_1 = ''Fire'', Type_2 = ''total''\<rparr>, \<lparr>Type_1 = ''Water'', Type_2 = ''None''\<rparr>])
   = [(''Fire'', Some 0, Some 1), (''Water'', Some 1, Some 1)]"
  by code_simp

text \<open>
  C7 (as amended). The sorted entries are in descending order of their total. Entries
  with equal totals keep the order they have in \<open>countsByType\<close>, which is the order in
  which their primary types first occur in the records (the sort is stable and compares
  totals only), so equal inputs give identically ordered output. The total of an entry is
  the number of records of its primary type, and it is the \<open>total\<close> property of the
  corresponding object of \<open>sortedCountsArray\<close>.
\<close>

theorem sortedCounts_order:
  "sorted_wrt (\<lambda>e1 e2. total_of (snd e2) \<le> total_of (snd e1)) (sortedEntries lc data)
   \<and> (\<forall>n. filter (\<lambda>e. total_of (snd e) = n) (sortedEntries lc data)
          = filter (\<lambda>e. total_of (snd e) = n) (countsByType lc data))
   \<and> map fst (countsByType lc data) = first_seen (map Type_1 data)
   \<and> (\<forall>e\<in>set (countsByType lc data). total_of (snd e) = group_size data (fst e))
   \<and> map (\<lambda>obj. obj ''total'') (sortedCountsArray lc data)
       = map (\<lambda>e. Some (Num (group_size data (fst e)))) (sortedEntries lc data)"
proof (intro conjI allI ballI)
  show "sorted_wrt (\<lambda>e1 e2. total_of (snd e2) \<le> total_of (snd e1)) (sortedEntries lc data)"
    unfolding sortedEntries_def by (rule array_sort_descending)
  show "filter (\<lambda>e. total_of (snd e) = n) (sortedEntries lc data)
          = filter (\<lambda>e. total_of (snd e) = n) (countsByType lc data)" for n
    unfolding sortedEntries_def by (rule array_sort_stable)
  show "map fst (countsByType lc data) = first_seen (map Type_1 data)"
    by (simp add: countsByType_eq comp_def uniq_first_seen [symmetric])
  show tot: "total_of (snd e) = group_size data (fst e)" if "e \<in> set (countsByType lc data)" for e
    using that by (auto simp: countsByType_eq total_of_def)
  have "set (sortedEntries lc data) = set (countsByType lc data)"
    by (simp add: sortedEntries_def set_array_sort)
  then have st: "e \<in> set (sortedEntries lc data) \<Longrightarrow> snd e ''total'' = Some (group_size data (fst e))" for e
    by (auto simp: countsByType_eq)
  show "map (\<lambda>obj. obj ''total'') (sortedCountsArray lc data)
       = map (\<lambda>e. Some (Num (group_size data (fst e)))) (sortedEntries lc data)"
    unfolding sortedCountsArray_def map_map
    by (intro map_cong refl) (simp add: spread_counts_def split_beta st)
qed

theorem sortedCounts_order_witness:
  "map fst (countsByType (\<lambda>a b. 0) [\<lparr>Type_1 = ''Fire'', Type_2 = ''None''\<rparr>, \<lparr>Type_1 = ''Fire'', Type_2 = ''Flying''\<rparr>, \<lparr>Type_1 = ''Water'', Type_2 = ''None''\<rparr>]) = [''Fire'', ''Water'']
   \<and> total_of (snd (countsByType (\<lambda>a b. 0) [\<lparr>Type_1 = ''Fire'', Type_2 = ''None''\<rparr>, \<lparr>Type_1 = ''Fire'', Type_2 = ''Flying''\<rparr>, \<lparr>Type_1 = ''Water'', Type_2 = ''None''\<rparr>] ! 0)) = 2
   \<and> map (\<lambda>obj. obj ''total'') (sortedCountsArray (\<lambda>a b. 0) [\<lparr>Type_1 = ''Fire'', Type_2 = ''None''\<rparr>, \<lparr>Type_1 = ''Fire'', Type_2 = ''Flying''\<rparr>, \<lparr>Type_1 = ''Water'', Type_2 = ''None''\<rparr>]) = [Some (Num 2), Some (Num 1)]"
proof -
  let ?d = "[\<lparr>Type_1 = ''Fire'', Type_2 = ''None''\<rparr>, \<lparr>Type_1 = ''Fire'', Type_2 = ''Flying''\<rparr>, \<lparr>Type_1 = ''Water'', Type_2 = ''None''\<rparr>]"
  let ?e = "countsByType (\<lambda>a b. 0) ?d ! 0"
  have k: "map fst (countsByType (\<lambda>a b. 0) ?d) = [''Fire'', ''Water'']" by code_simp
  have ks: "map fst (sortedEntries (\<lambda>a b. 0) ?d) = [''Fire'', ''Water'']" by code_simp
  note t = sortedCounts_order [where data = ?d and lc = "\<lambda>a b. 0"]
  note t4 = t [THEN conjunct2, THEN conjunct2, THEN conjunct2, THEN conjunct1]
  note t5 = t [THEN conjunct2, THEN conjunct2, THEN conjunct2, THEN conjunct2]
  have "length (countsByType (\<lambda>a b. 0) ?d) = 2"
    using arg_cong [OF k, of length] by simp
  then have e: "?e \<in> set (countsByType (\<lambda>a b. 0) ?d)" by simp
  have fe: "fst ?e = ''Fire''" by code_simp
  have g: "group_size ?d ''Fire'' = 2" "group_size ?d ''Water'' = 1" by code_simp+
  have "total_of (snd ?e) = group_size ?d (fst ?e)" using t4 e by (rule bspec)
  then have 1: "total_of (snd ?e) = 2" unfolding fe g .
  have "map (\<lambda>obj. obj ''total'') (sortedCountsArray (\<lambda>a b. 0) ?d)
      = map (\<lambda>e. Some (Num (group_size ?d (fst e)))) (sortedEntries (\<lambda>a b. 0) ?d)"
    by (rule t5)
  also have "\<dots> = map (\<lambda>k. Some (Num (group_size ?d k))) (map fst (sortedEntries (\<lambda>a b. 0) ?d))"
    unfolding map_map comp_def ..
  also have "\<dots> = [Some (Num 2), Some (Num 1)]"
    unfolding ks by (simp add: g)
  finally have 2: "map (\<lambda>obj. obj ''total'') (sortedCountsArray (\<lambda>a b. 0) ?d) = [Some (Num 2), Some (Num 1)]" .
  show ?thesis using k 1 2 by (intro conjI)
qed

text \<open>
  The claim as stated fails on ties: a Water record followed by a Fire record gives two
  groups of total 1, returned in the order Water, Fire, although \<open>Fire\<close> is
  lexicographically smaller than \<open>Water\<close>.
\<close>

theorem sortedCounts_ties_counterexample:
  "map (\<lambda>obj. (obj ''primaryType'', obj ''total''))
     (sortedCountsArray (\<lambda>a b. 0)
        [\<lparr>Type_1 = ''Water'', Type_2 = ''None''\<rparr>, \<lparr>Type_1 = ''Fire'', Type_2 = ''None''\<rparr>])
   = [(Some (Str ''Water''), Some (Num 1)), (Some (Str ''Fire''), Some (Num 1))]
   \<and> ''Fire'' < ''Water''"
  by code_simp

section \<open>Properties of the histogram\<close>

subsection \<open>Bisection and pushing a value\<close>

lemma bisect_right_bounds: "lo \<le> hi \<Longrightarrow> lo \<le> bisect_right a x lo hi \<and> bisect_right a x lo hi \<le> hi"
proof (induction a x lo hi rule: bisect_right.induct)
  case (1 a x lo hi)
  show ?case
  proof (cases "lo < hi")
    case False
    then have "bisect_right a x lo hi = lo"
      by (subst bisect_right.simps) simp
    with "1.prems" show ?thesis by simp
  next
    case True
    let ?mid = "(lo + hi) div 2"
    have mid: "lo \<le> ?mid" "?mid < hi" using True by auto
    show ?thesis
    proof (cases "x < a ! ?mid")
      case left: True
      have "bisect_right a x lo hi = bisect_right a x lo ?mid"
        using True left by (subst bisect_right.simps) (simp add: Let_def)
      with "1.IH"(1) [OF True refl left] mid show ?thesis by simp
    next
      case right: False
      have "bisect_right a x lo hi = bisect_right a x (?mid + 1) hi"
        using True right by (subst bisect_right.simps) (simp add: Let_def)
      with "1.IH"(2) [OF True refl right] mid show ?thesis by simp
    qed
  qed
qed

lemma bin_push_props:
  assumes "k < length bins"
  shows "length (bin_push bins k x) = length bins"
    and "map bin_x0 (bin_push bins k x) = map bin_x0 bins"
    and "map bin_x1 (bin_push bins k x) = map bin_x1 bins"
    and "bin_count (bin_push bins k x) = bin_count bins + 1"
proof -
  show "length (bin_push bins k x) = length bins" by (simp add: bin_push_def)
  show "map bin_x0 (bin_push bins k x) = map bin_x0 bins"
    using assms by (simp add: bin_push_def map_update list_update_same_conv)
  show "map bin_x1 (bin_push bins k x) = map bin_x1 bins"
    using assms by (simp add: bin_push_def map_update list_update_same_conv)
  have "map (\<lambda>b. length (bin_values b)) (bin_push bins k x)
      = (map (\<lambda>b. length (bin_values b)) bins)[k := length (bin_values (bins ! k)) + 1]"
    by (simp add: bin_push_def map_update)
  then show "bin_count (bin_push bins k x) = bin_count bins + 1"
    using assms by (simp add: bin_count_def sum_list_update)
qed

lemma bin_push_values:
  assumes "k < length bins" "b \<in> set (bin_push bins k x)" "v \<in> set (bin_values b)"
  shows "v = x \<or> (\<exists>b'\<in>set bins. v \<in> set (bin_values b'))"
proof -
  have "b = (bins ! k)\<lparr>bin_values := bin_values (bins ! k) @ [x]\<rparr> \<or> b \<in> set bins"
    using assms(2) set_update_subset_insert [of bins k] unfolding bin_push_def by blast
  then show ?thesis
  proof
    assume "b = (bins ! k)\<lparr>bin_values := bin_values (bins ! k) @ [x]\<rparr>"
    then have "v = x \<or> v \<in> set (bin_values (bins ! k))" using assms(3) by auto
    then show ?thesis using nth_mem [OF assms(1)] by blast
  next
    assume "b \<in> set bins"
    then show ?thesis using assms(3) by blast
  qed
qed

subsection \<open>The bins and their bounds\<close>

lemma init_bins_x0: "map bin_x0 (init_bins x0 x1 tz) = x0 # tz"
proof -
  have "[0..<length tz + 1] = 0 # map Suc [0..<length tz]"
    by (simp add: upt_conv_Cons map_Suc_upt del: upt_Suc)
  then have "map bin_x0 (init_bins x0 x1 tz) = x0 # map (\<lambda>i. tz ! i) [0..<length tz]"
    by (simp add: init_bins_def comp_def del: upt_Suc)
  then show ?thesis by (simp add: map_nth)
qed

lemma init_bins_x1: "map bin_x1 (init_bins x0 x1 tz) = tz @ [x1]"
proof -
  have "map (\<lambda>i. if i < length tz then tz ! i else x1) [0..<length tz] = map (\<lambda>i. tz ! i) [0..<length tz]"
    by (rule map_cong) auto
  then show ?thesis by (simp add: init_bins_def comp_def map_nth)
qed

lemma init_bins_empty: "b \<in> set (init_bins x0 x1 tz) \<Longrightarrow> bin_values b = []"
  by (auto simp: init_bins_def)

lemma init_bins_count: "bin_count (init_bins x0 x1 tz) = 0"
  by (simp add: bin_count_def init_bins_empty)

lemma length_init_bins: "length (init_bins x0 x1 tz) = length tz + 1"
  by (simp add: init_bins_def)

lemma fold_bins:
  assumes "length bins = length tz + 1"
  shows "length (foldl (assign_value x0 x1 tz) bins data) = length tz + 1
     \<and> map bin_x0 (foldl (assign_value x0 x1 tz) bins data) = map bin_x0 bins
     \<and> map bin_x1 (foldl (assign_value x0 x1 tz) bins data) = map bin_x1 bins
     \<and> bin_count (foldl (assign_value x0 x1 tz) bins data)
         = bin_count bins + length (filter (\<lambda>v. x0 \<le> v \<and> v \<le> x1) data)
     \<and> (\<forall>b\<in>set (foldl (assign_value x0 x1 tz) bins data).
           \<forall>v\<in>set (bin_values b). (x0 \<le> v \<and> v \<le> x1) \<or> (\<exists>b'\<in>set bins. v \<in> set (bin_values b')))"
  using assms
proof (induction data arbitrary: bins)
  case Nil
  then show ?case by auto
next
  case (Cons x xs)
  show ?case
  proof (cases "x0 \<le> x \<and> x \<le> x1")
    case False
    then have "assign_value x0 x1 tz bins x = bins" by (auto simp: assign_value_def)
    then show ?thesis using Cons.IH [OF Cons.prems] False by simp
  next
    case True
    let ?k = "bisect_right tz x 0 (length tz)"
    have k: "?k < length bins"
      using bisect_right_bounds [of 0 "length tz" tz x] Cons.prems by simp
    have step: "assign_value x0 x1 tz bins x = bin_push bins ?k x"
      using True by (simp add: assign_value_def)
    note p = bin_push_props [OF k, of x]
    have len: "length (bin_push bins ?k x) = length tz + 1" using p(1) Cons.prems by simp
    have vals: "\<And>b v. b \<in> set (bin_push bins ?k x) \<Longrightarrow> v \<in> set (bin_values b) \<Longrightarrow>
        (x0 \<le> v \<and> v \<le> x1) \<or> (\<exists>b'\<in>set bins. v \<in> set (bin_values b'))"
      using bin_push_values [OF k] True by blast
    note ih = Cons.IH [OF len, unfolded p(2,3,4)]
    have "\<forall>b\<in>set (foldl (assign_value x0 x1 tz) (bin_push bins ?k x) xs).
           \<forall>v\<in>set (bin_values b). (x0 \<le> v \<and> v \<le> x1) \<or> (\<exists>b'\<in>set bins. v \<in> set (bin_values b'))"
      using ih vals by blast
    with ih True show ?thesis
      by (simp add: step)
  qed
qed

lemma d3_histogram_props:
  "length (d3_histogram x0 x1 thresholds data) = length (kept_thresholds x0 x1 thresholds) + 1"
  "map bin_x0 (d3_histogram x0 x1 thresholds data) = x0 # kept_thresholds x0 x1 thresholds"
  "map bin_x1 (d3_histogram x0 x1 thresholds data) = kept_thresholds x0 x1 thresholds @ [x1]"
  "bin_count (d3_histogram x0 x1 thresholds data) = length (filter (\<lambda>v. x0 \<le> v \<and> v \<le> x1) data)"
  "b \<in> set (d3_histogram x0 x1 thresholds data) \<Longrightarrow> v \<in> set (bin_values b) \<Longrightarrow> x0 \<le> v \<and> v \<le> x1"
  using fold_bins [OF length_init_bins, of x0 x1 "kept_thresholds x0 x1 thresholds" x0 x1 data]
  by (auto simp: d3_histogram_def Let_def init_bins_x0 init_bins_x1 init_bins_count init_bins_empty)

lemma dropWhile_sorted_le:
  "sorted xs \<Longrightarrow> dropWhile (\<lambda>t. t \<le> x0) xs = filter (\<lambda>t. x0 < t) (xs::real list)"
proof (induction xs)
  case Nil
  show ?case by simp
next
  case (Cons x xs)
  show ?case
  proof (cases "x \<le> x0")
    case True
    with Cons show ?thesis by simp
  next
    case False
    with Cons.prems have "\<forall>t\<in>set xs. x0 < t" by auto
    then have "filter (\<lambda>t. x0 < t) xs = xs" by simp
    with False show ?thesis by simp
  qed
qed

lemma dropWhile_sorted_desc:
  "sorted_wrt (\<lambda>a b. b \<le> a) xs \<Longrightarrow> dropWhile (\<lambda>t. x1 < t) xs = filter (\<lambda>t. t \<le> x1) (xs::real list)"
proof (induction xs)
  case Nil
  show ?case by simp
next
  case (Cons x xs)
  show ?case
  proof (cases "x1 < x")
    case True
    with Cons show ?thesis by simp
  next
    case False
    with Cons.prems have "\<forall>t\<in>set xs. t \<le> x1" by auto
    then have "filter (\<lambda>t. t \<le> x1) xs = xs" by simp
    with False show ?thesis by simp
  qed
qed

lemma kept_thresholds_sorted:
  assumes "sorted thresholds"
  shows "kept_thresholds x0 x1 thresholds = filter (\<lambda>t. x0 < t \<and> t \<le> x1) thresholds"
proof -
  have "sorted (filter (\<lambda>t. x0 < t) thresholds)" using assms by (rule sorted_wrt_filter)
  then have "sorted_wrt (\<lambda>a b. b \<le> a) (rev (filter (\<lambda>t. x0 < t) thresholds))"
    by (simp add: sorted_wrt_rev)
  then show ?thesis
    by (simp add: kept_thresholds_def dropWhile_sorted_le [OF assms] dropWhile_sorted_desc
        rev_filter [symmetric] conj_commute)
qed

lemma foldl_max_upper:
  "x \<le> foldl max x xs \<and> (\<forall>v\<in>set xs. v \<le> foldl max x (xs::real list))"
proof (induction xs arbitrary: x)
  case Nil
  show ?case by simp
next
  case (Cons y ys)
  have "max x y \<le> foldl max (max x y) ys" "\<forall>v\<in>set ys. v \<le> foldl max (max x y) ys"
    using Cons.IH [of "max x y"] by simp_all
  moreover have "x \<le> max x y" "y \<le> max x y" by simp_all
  ultimately show ?case by (simp del: max.bounded_iff) linarith
qed

lemma math_max_upper: "math_max data = Some mx \<Longrightarrow> v \<in> set data \<Longrightarrow> v \<le> mx"
  using foldl_max_upper by (auto simp: math_max_def split: list.splits)

lemma maxBinValue_upper:
  assumes "maxBinValue data = Some mbv" "v \<in> set data" "\<forall>v\<in>set data. 0 \<le> v"
  shows "v \<le> mbv"
proof -
  from assms(1) obtain mx where mx: "math_max data = Some mx"
    and mbv: "mbv = of_int \<lceil>mx / 30\<rceil> * 31"
    by (auto simp: maxBinValue_def HISTOGRAM_NUM_BINS_def)
  have "v \<le> mx" using mx assms(2) by (rule math_max_upper)
  moreover have "0 \<le> mx" using assms(2,3) \<open>v \<le> mx\<close> by force
  moreover have "mx / 30 \<le> of_int \<lceil>mx / 30\<rceil>" by (rule le_of_int_ceiling)
  ultimately show ?thesis unfolding mbv by linarith
qed

text \<open>
  C8. The counts of the bins sum to the number of values that lie inside the domain
  \<open>[x0, x1]\<close>, so they sum to the number of input values when every value lies inside
  it; every value a bin holds lies inside the domain, so a value below \<open>x0\<close> or above \<open>x1\<close>
  is in no bin: it is dropped, neither clamped nor an error. This holds for every
  threshold array. In \<^verbatim>\<open>displayHistogram\<close> the domain is \<open>[0, maxBinValue]\<close>, which holds
  every value of a sample without negative values.
\<close>

theorem histogram_total_mass:
  "bin_count (d3_histogram x0 x1 thresholds data) = length (filter (\<lambda>v. x0 \<le> v \<and> v \<le> x1) data)
   \<and> ((\<forall>v\<in>set data. x0 \<le> v \<and> v \<le> x1) \<longrightarrow> bin_count (d3_histogram x0 x1 thresholds data) = length data)
   \<and> (\<forall>b\<in>set (d3_histogram x0 x1 thresholds data). \<forall>v\<in>set (bin_values b). x0 \<le> v \<and> v \<le> x1)
   \<and> (\<forall>bins. displayHistogram_bins ticks data = Some bins \<and> (\<forall>v\<in>set data. 0 \<le> v) \<longrightarrow>
         bin_count bins = length data)"
proof -
  have c: "bin_count (d3_histogram x0 x1 thresholds data) = length (filter (\<lambda>v. x0 \<le> v \<and> v \<le> x1) data)"
    for x0 x1 thresholds
    by (rule d3_histogram_props)
  have all_in: "bin_count (d3_histogram x0 x1 thresholds data) = length data"
    if "\<forall>v\<in>set data. x0 \<le> v \<and> v \<le> x1"
    using that by (simp add: c)
  have binned: "x0 \<le> v \<and> v \<le> x1"
    if "b \<in> set (d3_histogram x0 x1 thresholds data)" "v \<in> set (bin_values b)" for b v
    using that by (rule d3_histogram_props)
  have inst: "bin_count bins = length data"
    if h: "displayHistogram_bins ticks data = Some bins \<and> (\<forall>v\<in>set data. 0 \<le> v)" for bins
  proof -
    from h obtain mbv where mbv: "maxBinValue data = Some mbv"
      and bins: "bins = d3_histogram 0 mbv (ticks 0 mbv HISTOGRAM_NUM_BINS) data"
      by (auto simp: displayHistogram_bins_def split: option.splits)
    have "\<forall>v\<in>set data. 0 \<le> v \<and> v \<le> mbv"
      using h maxBinValue_upper [OF mbv] by blast
    then show ?thesis by (simp add: bins c)
  qed
  show ?thesis
    using c all_in binned inst by blast
qed

theorem histogram_total_mass_witness:
  "bin_count (d3_histogram 0 40 [0, 10, 20, 30, 40] [5, 15, 25, 35]) = 4
   \<and> displayHistogram_bins (\<lambda>lo hi n. map (\<lambda>i. 2 * real i) [0..<32]) [60]
        = Some (d3_histogram 0 62 (map (\<lambda>i. 2 * real i) [0..<32]) [60])
   \<and> bin_count (d3_histogram 0 62 (map (\<lambda>i. 2 * real i) [0..<32]) [60]) = 1"
proof -
  note t = histogram_total_mass [where ?x0.0 = 0 and ?x1.0 = 40 and thresholds = "[0, 10, 20, 30, 40]"
      and data = "[5, 15, 25, 35]"]
  note u = histogram_total_mass [where data = "[60]" and ticks = "\<lambda>lo hi n. map (\<lambda>i. 2 * real i) [0..<32]"]
  have h: "\<forall>v\<in>set [5, 15, 25, 35::real]. 0 \<le> v \<and> v \<le> 40" by simp
  have a: "bin_count (d3_histogram 0 40 [0, 10, 20, 30, 40] [5, 15, 25, 35]) = 4"
    using t [THEN conjunct2, THEN conjunct1, THEN mp, OF h] by simp
  have m: "maxBinValue [60] = Some 62" by code_simp
  have b: "displayHistogram_bins (\<lambda>lo hi n. map (\<lambda>i. 2 * real i) [0..<32]) [60]
        = Some (d3_histogram 0 62 (map (\<lambda>i. 2 * real i) [0..<32]) [60])"
    by (simp add: displayHistogram_bins_def m)
  have p: "\<forall>v\<in>set [60::real]. 0 \<le> v" by simp
  have c: "bin_count (d3_histogram 0 62 (map (\<lambda>i. 2 * real i) [0..<32]) [60]) = 1"
    using u [THEN conjunct2, THEN conjunct2, THEN conjunct2, THEN spec, THEN mp, OF conjI [OF b p]] by simp
  show ?thesis using a b c by (intro conjI)
qed

text \<open>
  C9 (as amended). For every domain and every threshold array the bins are contiguous:
  the first starts at \<open>x0\<close>, the last ends at \<open>x1\<close>, and the upper bound of a bin is the lower
  bound of the next. When the thresholds are ascending the inner bounds are exactly the
  thresholds \<open>t\<close> with \<open>x0 < t \<le> x1\<close>, the bins come in ascending order of their lower
  bound, and (for \<open>x0 \<le> x1\<close>) no bin ends before it starts. The bins are not
  \<open>HISTOGRAM_NUM_BINS\<close> bins of the width \<open>(x1 - x0) / HISTOGRAM_NUM_BINS\<close>:
  \<^verbatim>\<open>displayHistogram\<close> hands the ticks of the scale to the generator as thresholds, so the
  number and the widths of the bins are those of the ticks.
\<close>

theorem histogram_bins_contiguous:
  "map bin_x0 (d3_histogram x0 x1 thresholds data) = x0 # kept_thresholds x0 x1 thresholds
   \<and> map bin_x1 (d3_histogram x0 x1 thresholds data) = kept_thresholds x0 x1 thresholds @ [x1]
   \<and> (\<forall>i. Suc i < length (d3_histogram x0 x1 thresholds data) \<longrightarrow>
          bin_x1 (d3_histogram x0 x1 thresholds data ! i) = bin_x0 (d3_histogram x0 x1 thresholds data ! Suc i))
   \<and> (sorted thresholds \<longrightarrow>
          kept_thresholds x0 x1 thresholds = filter (\<lambda>t. x0 < t \<and> t \<le> x1) thresholds
        \<and> sorted (map bin_x0 (d3_histogram x0 x1 thresholds data))
        \<and> (x0 \<le> x1 \<longrightarrow> (\<forall>b\<in>set (d3_histogram x0 x1 thresholds data). bin_x0 b \<le> bin_x1 b)))
   \<and> (\<forall>mbv. maxBinValue data = Some mbv \<longrightarrow>
          displayHistogram_bins ticks data
            = Some (d3_histogram 0 mbv (ticks 0 mbv HISTOGRAM_NUM_BINS) data))"
proof -
  let ?bins = "d3_histogram x0 x1 thresholds data" and ?tz = "kept_thresholds x0 x1 thresholds"
  have lo: "map bin_x0 ?bins = x0 # ?tz" and hi: "map bin_x1 ?bins = ?tz @ [x1]"
    and len: "length ?bins = length ?tz + 1"
    by (rule d3_histogram_props)+
  have nth_lo: "bin_x0 (?bins ! i) = (x0 # ?tz) ! i" if "i < length ?bins" for i
    using nth_map [OF that, of bin_x0] by (simp only: lo)
  have nth_hi: "bin_x1 (?bins ! i) = (?tz @ [x1]) ! i" if "i < length ?bins" for i
    using nth_map [OF that, of bin_x1] by (simp only: hi)
  have contiguous: "bin_x1 (?bins ! i) = bin_x0 (?bins ! Suc i)" if "Suc i < length ?bins" for i
    using that nth_lo [of "Suc i"] nth_hi [of i] len by (simp add: nth_append)
  have sorted_part: "?tz = filter (\<lambda>t. x0 < t \<and> t \<le> x1) thresholds
        \<and> sorted (map bin_x0 ?bins) \<and> (x0 \<le> x1 \<longrightarrow> (\<forall>b\<in>set ?bins. bin_x0 b \<le> bin_x1 b))"
    if s: "sorted thresholds"
  proof -
    have tz: "?tz = filter (\<lambda>t. x0 < t \<and> t \<le> x1) thresholds"
      using s by (rule kept_thresholds_sorted)
    have stz: "sorted ?tz" unfolding tz using s by (rule sorted_wrt_filter)
    have bounds: "\<forall>t\<in>set ?tz. x0 < t \<and> t \<le> x1" unfolding tz by simp
    have "sorted (x0 # ?tz)" using stz bounds by auto
    then have s0: "sorted (map bin_x0 ?bins)" by (simp only: lo)
    have "bin_x0 b \<le> bin_x1 b" if "x0 \<le> x1" "b \<in> set ?bins" for b
    proof -
      from that(2) obtain i where i: "i < length ?bins" "b = ?bins ! i"
        by (auto simp: in_set_conv_nth)
      consider "i = 0" "?tz = []" | "i = 0" "?tz \<noteq> []" | "0 < i" "i < length ?tz" | "0 < i" "i = length ?tz"
        using i(1) len by fastforce
      then show ?thesis
      proof cases
        case 1
        then show ?thesis using i that(1) nth_lo [of i] nth_hi [of i] by simp
      next
        case 2
        then have "?tz ! 0 \<in> set ?tz" by simp
        with bounds have "x0 < ?tz ! 0" by blast
        with 2 show ?thesis using i nth_lo [of i] nth_hi [of i] by (simp add: nth_append)
      next
        case 3
        then have "?tz ! (i - 1) \<le> ?tz ! i" using stz by (simp add: sorted_iff_nth_mono)
        with 3 show ?thesis using i nth_lo [of i] nth_hi [of i] by (simp add: nth_append nth_Cons')
      next
        case 4
        then have "?tz ! (i - 1) \<in> set ?tz" by simp
        with bounds have "?tz ! (i - 1) \<le> x1" by blast
        with 4 show ?thesis using i nth_lo [of i] nth_hi [of i] by (simp add: nth_append nth_Cons')
      qed
    qed
    with tz s0 show ?thesis by blast
  qed
  have inst: "displayHistogram_bins ticks data
            = Some (d3_histogram 0 mbv (ticks 0 mbv HISTOGRAM_NUM_BINS) data)"
    if "maxBinValue data = Some mbv" for mbv
    using that by (simp add: displayHistogram_bins_def)
  show ?thesis
    using lo hi contiguous sorted_part inst by blast
qed

theorem histogram_bins_contiguous_witness:
  "sorted [0, 10, 20, 30, 40::real] \<and> (0::real) \<le> 40
   \<and> map bin_x0 (d3_histogram 0 40 [0, 10, 20, 30, 40] [5, 15, 25, 35]) = [0, 10, 20, 30, 40]
   \<and> map bin_x1 (d3_histogram 0 40 [0, 10, 20, 30, 40] [5, 15, 25, 35]) = [10, 20, 30, 40, 40]
   \<and> sorted (map bin_x0 (d3_histogram 0 40 [0, 10, 20, 30, 40] [5, 15, 25, 35]))
   \<and> bin_x0 (d3_histogram 0 40 [0, 10, 20, 30, 40] [5, 15, 25, 35] ! 4)
       \<le> bin_x1 (d3_histogram 0 40 [0, 10, 20, 30, 40] [5, 15, 25, 35] ! 4)"
proof -
  note t = histogram_bins_contiguous [where ?x0.0 = 0 and ?x1.0 = 40
      and thresholds = "[0, 10, 20, 30, 40]" and data = "[5, 15, 25, 35]"]
  have s: "sorted [0, 10, 20, 30, 40::real]" by simp
  have le: "(0::real) \<le> 40" by simp
  have k: "kept_thresholds 0 40 [0, 10, 20, 30, 40] = [10, 20, 30, 40]" by code_simp
  have a: "map bin_x0 (d3_histogram 0 40 [0, 10, 20, 30, 40] [5, 15, 25, 35]) = [0, 10, 20, 30, 40]"
    using t [THEN conjunct1] unfolding k .
  have b: "map bin_x1 (d3_histogram 0 40 [0, 10, 20, 30, 40] [5, 15, 25, 35]) = [10, 20, 30, 40, 40]"
    using t [THEN conjunct2, THEN conjunct1] unfolding k by simp
  note ts = t [THEN conjunct2, THEN conjunct2, THEN conjunct2, THEN conjunct1, THEN mp, OF s]
  have c: "sorted (map bin_x0 (d3_histogram 0 40 [0, 10, 20, 30, 40] [5, 15, 25, 35]))"
    using ts [THEN conjunct2, THEN conjunct1] .
  have "length (d3_histogram 0 40 [0, 10, 20, 30, 40] [5, 15, 25, 35]) = 5"
    using arg_cong [OF a, of length] by simp
  then have m: "d3_histogram 0 40 [0, 10, 20, 30, 40] [5, 15, 25, 35] ! 4
      \<in> set (d3_histogram 0 40 [0, 10, 20, 30, 40] [5, 15, 25, 35])" by simp
  have d: "bin_x0 (d3_histogram 0 40 [0, 10, 20, 30, 40] [5, 15, 25, 35] ! 4)
       \<le> bin_x1 (d3_histogram 0 40 [0, 10, 20, 30, 40] [5, 15, 25, 35] ! 4)"
    using ts [THEN conjunct2, THEN conjunct2, THEN mp, OF le, THEN bspec, OF m] .
  show ?thesis using s le a b c d by (intro conjI)
qed

text \<open>
  The claim as stated fails for the sample \<open>[60]\<close>: \<open>maxBinValue\<close> is 62, the ticks that
  the scale with the domain \<open>[0, 62]\<close> returns for the count 30 are \<open>0, 2, 4, \<dots>, 62\<close> (the
  tick step of d3 is 1, 2 or 5 times a power of ten, here 2), and the generator returns 32
  bins: 31 of width 2 and a last bin from 62 to 62 of width 0. None has the width
  \<open>62 / 30\<close>.
\<close>

theorem histogram_equal_width_counterexample:
  "map_option (map (\<lambda>b. bin_x1 b - bin_x0 b))
       (displayHistogram_bins (\<lambda>lo hi n. map (\<lambda>i. 2 * real i) [0..<32]) [60])
     = Some (replicate 31 2 @ [0])
   \<and> maxBinValue [60] = Some 62
   \<and> (62 - 0) / real HISTOGRAM_NUM_BINS \<noteq> (2::real)
   \<and> (62 - 0) / real HISTOGRAM_NUM_BINS \<noteq> (0::real)"
  by code_simp

section \<open>Properties of the ridgeline plot: generations with too few points\<close>

lemma map_of_groups_of:
  "map_of (groups_of keyof xs) k
     = (if k \<in> keyof ` set xs then Some (filter (\<lambda>x. keyof x = k) xs) else None)"
  by (simp add: groups_of_def map_of_map_restrict restrict_map_def set_uniq)

lemma dataByGen_lookup:
  "(case map_of (dataByGen str data) k of Some vals \<Rightarrow> vals | None \<Rightarrow> []) = gen_records str data k"
proof (cases "k \<in> genKey str ` set (filter valid_record data)")
  case True
  then show ?thesis
    by (simp add: dataByGen_def d3_group_def foldl_group_push map_of_groups_of gen_records_def)
next
  case False
  then have "gen_records str data k = []"
    by (auto simp: gen_records_def filter_empty_conv)
  with False show ?thesis
    by (simp add: dataByGen_def d3_group_def foldl_group_push map_of_groups_of)
qed

lemma dataByGenArray_eq:
  "dataByGenArray str data
     = map (\<lambda>k. (k, gen_records str data k))
         (filter (\<lambda>k. gen_records str data k \<noteq> []) (generations str data))"
  by (simp add: dataByGenArray_def dataByGen_lookup filter_map comp_def)

lemma genDataTotals_valid:
  "\<forall>d\<in>set vals. valid_record d \<Longrightarrow> length (genDataTotals vals) = length vals"
  by (induction vals) (auto simp: genDataTotals_def map_filter_simps valid_record_def)

lemma genDataTotals_gen_records:
  "length (genDataTotals (gen_records str data k)) = length (gen_records str data k)"
  by (rule genDataTotals_valid) (simp add: gen_records_def)

lemma ridge_each_too_few:
  "ridge_each ticks (k, vals) = Skipped (TooFewPoints w) \<longleftrightarrow> w = k \<and> length (genDataTotals vals) < 2"
  by (auto simp: ridge_each_def Let_def split: option.splits)

lemma d3_extent_foldl_None:
  "foldl (\<lambda>ext v. case valueof v of
                       None \<Rightarrow> ext
                     | Some y \<Rightarrow> (case ext of
                                    None \<Rightarrow> Some (y, y)
                                  | Some (mn, mx) \<Rightarrow> Some (if y < mn then y else mn,
                                                          if mx < y then y else mx)))
           ext vs = None
     \<longleftrightarrow> ext = None \<and> (\<forall>v\<in>set vs. valueof v = None)"
  by (induction vs arbitrary: ext) (auto split: option.splits)

lemma d3_extent_None: "d3_extent vs valueof = None \<longleftrightarrow> (\<forall>v\<in>set vs. valueof v = None)"
  by (simp add: d3_extent_def d3_extent_foldl_None)

lemma dataByGen_empty: "dataByGen str data = [] \<longleftrightarrow> \<not> (\<exists>d\<in>set data. valid_record d)"
proof -
  have "dataByGen str data = []
      \<longleftrightarrow> set (uniq (map (genKey str) (filter valid_record data))) = {}"
    by (simp add: dataByGen_def d3_group_def foldl_group_push groups_of_def)
  also have "\<dots> \<longleftrightarrow> filter valid_record data = []"
    unfolding set_uniq by (auto simp: filter_empty_conv)
  also have "\<dots> \<longleftrightarrow> \<not> (\<exists>d\<in>set data. valid_record d)"
    unfolding filter_empty_conv by blast
  finally show ?thesis .
qed

lemma createRidgelinePlot_ridges:
  "(\<exists>outs. createRidgelinePlot str ticks bandwidth data = Ridges outs)
     \<longleftrightarrow> (\<exists>d\<in>set data. valid_record d) \<and> 0 < bandwidth"
proof (cases "\<exists>d\<in>set data. valid_record d")
  case False
  then have "createRidgelinePlot str ticks bandwidth data = NoValidData"
    by (simp add: createRidgelinePlot_def dataByGen_empty)
  with False show ?thesis by simp
next
  case True
  then have ne: "dataByGen str data \<noteq> []" by (simp add: dataByGen_empty)
  from True obtain d where d: "d \<in> set data" "Total d \<noteq> None"
    by (auto simp: valid_record_def)
  have "d3_extent data Total \<noteq> None"
  proof
    assume "d3_extent data Total = None"
    then have "\<forall>v\<in>set data. Total v = None" by (simp only: d3_extent_None)
    then have "Total d = None" using d(1) by (rule bspec)
    with d(2) show False by simp
  qed
  then obtain e where e: "d3_extent data Total = Some e" by blast
  show ?thesis
  proof (cases "bandwidth \<le> 0")
    case True
    then have "createRidgelinePlot str ticks bandwidth data = BandTooSmall"
      using ne e by (simp add: createRidgelinePlot_def)
    with True show ?thesis by simp
  next
    case False
    then have "createRidgelinePlot str ticks bandwidth data
        = Ridges (drawRidges (ticks (fst e) (snd e) 60) (dataByGenArray str data))"
      using ne e by (simp add: createRidgelinePlot_def)
    with False \<open>\<exists>d\<in>set data. valid_record d\<close> show ?thesis by simp
  qed
qed

text \<open>
  C2 (as amended). A generation with fewer than two valid \<open>Total\<close> values does not make the
  call fail; no path of \<^verbatim>\<open>createRidgelinePlot\<close> fails, and it reaches the ridges exactly
  when some record passes the filter and the band width is positive. The generations the
  callback visits are those with at least one record that passes the filter, in the
  order of \<open>generations\<close>: a generation with no such record is dropped before the callback,
  with no warning and no curve. A visited generation with exactly one such record is
  skipped by the callback with the warning for too few points and gets no curve; a
  visited generation with two or more is never skipped for that reason, so the other
  generations are processed as usual.
\<close>

theorem ridge_too_few_skipped:
  "map fst (dataByGenArray str data)
     = filter (\<lambda>k. gen_records str data k \<noteq> []) (generations str data)
   \<and> ((\<exists>outs. createRidgelinePlot str ticks bandwidth data = Ridges outs)
        \<longleftrightarrow> (\<exists>d\<in>set data. valid_record d) \<and> 0 < bandwidth)
   \<and> (\<forall>outs. createRidgelinePlot str ticks bandwidth data = Ridges outs \<longrightarrow>
         length outs = length (dataByGenArray str data)
       \<and> (\<forall>i<length outs.
             snd (dataByGenArray str data ! i) = gen_records str data (fst (dataByGenArray str data ! i))
           \<and> (length (gen_records str data (fst (dataByGenArray str data ! i))) = 1 \<longrightarrow>
                 outs ! i = Skipped (TooFewPoints (fst (dataByGenArray str data ! i))))
           \<and> (length (gen_records str data (fst (dataByGenArray str data ! i))) \<noteq> 1 \<longrightarrow>
                 (\<forall>w. outs ! i \<noteq> Skipped (TooFewPoints w)))))"
proof (intro conjI allI impI)
  let ?arr = "dataByGenArray str data"
  show "map fst ?arr = filter (\<lambda>k. gen_records str data k \<noteq> []) (generations str data)"
    by (simp add: dataByGenArray_eq comp_def)
  show "(\<exists>outs. createRidgelinePlot str ticks bandwidth data = Ridges outs)
        \<longleftrightarrow> (\<exists>d\<in>set data. valid_record d) \<and> 0 < bandwidth"
    by (rule createRidgelinePlot_ridges)
  fix outs assume r: "createRidgelinePlot str ticks bandwidth data = Ridges outs"
  then obtain T where outs: "outs = map (ridge_each T) ?arr"
    by (auto simp: createRidgelinePlot_def drawRidges_def split: if_splits option.splits)
  show "length outs = length ?arr" by (simp add: outs)
  fix i assume i: "i < length outs"
  then have ia: "i < length ?arr" by (simp add: outs)
  let ?k = "fst (?arr ! i)"
  have mem: "?arr ! i \<in> set ?arr" using ia by simp
  then have e: "?arr ! i = (?k, gen_records str data ?k)" and ne: "gen_records str data ?k \<noteq> []"
    unfolding dataByGenArray_eq by auto
  show s: "snd (?arr ! i) = gen_records str data ?k"
    using e by (metis snd_conv)
  have o: "outs ! i = ridge_each T (?k, gen_records str data ?k)"
    using ia e by (simp add: outs)
  show "outs ! i = Skipped (TooFewPoints ?k)" if "length (gen_records str data ?k) = 1"
    using that by (simp add: o ridge_each_too_few genDataTotals_gen_records)
  show "outs ! i \<noteq> Skipped (TooFewPoints w)" if "length (gen_records str data ?k) \<noteq> 1" for w
  proof -
    have "length (gen_records str data ?k) \<noteq> 0" using ne by simp
    with that have "2 \<le> length (gen_records str data ?k)" by linarith
    then show ?thesis
      by (simp add: o ridge_each_too_few genDataTotals_gen_records)
  qed
qed

theorem ridge_too_few_skipped_witness:
  "generations (\<lambda>g. if g = 1 then ''1'' else if g = 2 then ''2'' else ''3'')
     [\<lparr>Generation = Some 2, Total = Some 500\<rparr>, \<lparr>Generation = Some 1, Total = Some 500\<rparr>,
      \<lparr>Generation = Some 2, Total = Some 500\<rparr>, \<lparr>Generation = Some 3, Total = None\<rparr>] = [''1'', ''2'', ''3'']
   \<and> map fst (dataByGenArray (\<lambda>g. if g = 1 then ''1'' else if g = 2 then ''2'' else ''3'')
     [\<lparr>Generation = Some 2, Total = Some 500\<rparr>, \<lparr>Generation = Some 1, Total = Some 500\<rparr>,
      \<lparr>Generation = Some 2, Total = Some 500\<rparr>, \<lparr>Generation = Some 3, Total = None\<rparr>]) = [''1'', ''2'']
   \<and> (\<exists>outs. createRidgelinePlot (\<lambda>g. if g = 1 then ''1'' else if g = 2 then ''2'' else ''3'') (\<lambda>lo hi n. [lo]) 10
     [\<lparr>Generation = Some 2, Total = Some 500\<rparr>, \<lparr>Generation = Some 1, Total = Some 500\<rparr>,
      \<lparr>Generation = Some 2, Total = Some 500\<rparr>, \<lparr>Generation = Some 3, Total = None\<rparr>] = Ridges outs
        \<and> length outs = 2
        \<and> outs ! 0 = Skipped (TooFewPoints ''1'')
        \<and> outs ! 1 \<noteq> Skipped (TooFewPoints ''2''))"
proof -
  let ?d = "[\<lparr>Generation = Some 2, Total = Some 500\<rparr>, \<lparr>Generation = Some 1, Total = Some 500\<rparr>,
      \<lparr>Generation = Some 2, Total = Some 500\<rparr>, \<lparr>Generation = Some 3, Total = None\<rparr>]"
  let ?s = "(\<lambda>g. if g = 1 then ''1'' else if g = 2 then ''2'' else ''3'')"
  let ?t = "(\<lambda>lo hi n. [lo])"
  note t = ridge_too_few_skipped [where str = ?s and data = ?d and ticks = ?t and bandwidth = 10]
  have g: "generations ?s ?d = [''1'', ''2'', ''3'']" by code_simp
  have k: "map fst (dataByGenArray ?s ?d) = [''1'', ''2'']" by code_simp
  have len: "length (dataByGenArray ?s ?d) = 2"
    using arg_cong [OF k, of length] by simp
  have k0: "fst (dataByGenArray ?s ?d ! 0) = ''1''" by code_simp
  have k1: "fst (dataByGenArray ?s ?d ! 1) = ''2''" by code_simp
  have n0: "length (gen_records ?s ?d ''1'') = 1" by code_simp
  have n1: "length (gen_records ?s ?d ''2'') \<noteq> 1" by code_simp
  have v: "(\<exists>d\<in>set ?d. valid_record d) \<and> (0::real) < 10" by code_simp
  from t [THEN conjunct2, THEN conjunct1, THEN iffD2, OF v]
  obtain outs where r: "createRidgelinePlot ?s ?t 10 ?d = Ridges outs" ..
  note u = t [THEN conjunct2, THEN conjunct2, THEN spec, THEN mp, OF r]
  have l: "length outs = 2" using u [THEN conjunct1] len by simp
  have i0: "0 < length outs" and i1: "1 < length outs" using l by simp_all
  note u0 = u [THEN conjunct2, THEN spec, THEN mp, OF i0, THEN conjunct2, unfolded k0]
  note u1 = u [THEN conjunct2, THEN spec, THEN mp, OF i1, THEN conjunct2, unfolded k1]
  have a: "outs ! 0 = Skipped (TooFewPoints ''1'')"
    using u0 [THEN conjunct1, THEN mp, OF n0] .
  have b: "outs ! 1 \<noteq> Skipped (TooFewPoints ''2'')"
    using u1 [THEN conjunct2, THEN mp, OF n1, THEN spec] .
  from r l a b have "createRidgelinePlot ?s ?t 10 ?d = Ridges outs
        \<and> length outs = 2 \<and> outs ! 0 = Skipped (TooFewPoints ''1'')
        \<and> outs ! 1 \<noteq> Skipped (TooFewPoints ''2'')"
    by (intro conjI)
  then have "\<exists>outs. createRidgelinePlot ?s ?t 10 ?d = Ridges outs
        \<and> length outs = 2 \<and> outs ! 0 = Skipped (TooFewPoints ''1'')
        \<and> outs ! 1 \<noteq> Skipped (TooFewPoints ''2'')" by blast
  with g k show ?thesis by (intro conjI)
qed


text \<open>
  The claim as stated fails for a generation with a single record. Of four records, one
  of generation 1 and two of generation 2 are valid, all with the total 500, and the one
  of generation 3 has no \<open>Total\<close>; the extent is \<open>[500, 500]\<close>, for which the ticks of the
  scale are the single value 500. Nothing is raised: generation 1 is skipped with a
  warning, generation 3 is never visited, and the curve of generation 2 is drawn.
\<close>

theorem ridge_single_point_counterexample:
  "createRidgelinePlot (\<lambda>g. if g = 1 then ''1'' else if g = 2 then ''2'' else ''3'') (\<lambda>lo hi n. [lo]) 10
     [\<lparr>Generation = Some 2, Total = Some 500\<rparr>, \<lparr>Generation = Some 1, Total = Some 500\<rparr>,
      \<lparr>Generation = Some 2, Total = Some 500\<rparr>, \<lparr>Generation = Some 3, Total = None\<rparr>]
   = Ridges [Skipped (TooFewPoints ''1''), Drawn [(500, 3 / 80)]]"
  by code_simp

end
